theory Spec2Isabelle
  imports Complex_Main "HOL-Library.Word"
begin

section \<open>Variables (include/dai/var.h)\<close>

text \<open>
  \<^verbatim>\<open>class Var { long _label; size_t _states; ... }\<close>.
  The label is a signed 64-bit integer, the number of states an unsigned one.
  The signed reading of a word is \<open>sint\<close>; \<open><s\<close> and \<open>\<le>s\<close> compare signed readings.
\<close>

record Var =
  label :: "64 word"
  states :: "64 word"

text \<open>The six comparison operators of \<^verbatim>\<open>Var\<close>, var.h lines 76 to 87.\<close>

definition var_less :: "Var \<Rightarrow> Var \<Rightarrow> bool" where
  "var_less v n = (label v <s label n)"

definition var_greater :: "Var \<Rightarrow> Var \<Rightarrow> bool" where
  "var_greater v n = (label n <s label v)"

definition var_less_eq :: "Var \<Rightarrow> Var \<Rightarrow> bool" where
  "var_less_eq v n = (label v \<le>s label n)"

definition var_greater_eq :: "Var \<Rightarrow> Var \<Rightarrow> bool" where
  "var_greater_eq v n = (label n \<le>s label v)"

definition var_not_eq :: "Var \<Rightarrow> Var \<Rightarrow> bool" where
  "var_not_eq v n = (label v \<noteq> label n)"

definition var_eq :: "Var \<Rightarrow> Var \<Rightarrow> bool" where
  "var_eq v n = (label v = label n)"


text \<open>Two variables for concrete evaluation: \<open>x0\<close> is binary, \<open>x1\<close> has three states.\<close>

definition var_x0 :: Var where
  "var_x0 = \<lparr>label = 0, states = 2\<rparr>"

definition var_x1 :: Var where
  "var_x1 = \<lparr>label = 1, states = 3\<rparr>"


section \<open>Sets of variables\<close>

text \<open>
  Modelled from the spec: the class \<^verbatim>\<open>VarSet\<close> (varset.h is not among the sources). A
  \<^verbatim>\<open>VarSet\<close> is "an ordered sequence of distinct variables sorted by label". Its
  comparison \<^verbatim>\<open>==\<close> compares the sequences element by element with \<^verbatim>\<open>Var::operator==\<close>,
  and \<^verbatim>\<open>a << b\<close> says that \<open>a\<close> is a subset of \<open>b\<close>: every variable of \<open>a\<close> is equal
  (\<^verbatim>\<open>==\<close>) to one of \<open>b\<close>.
\<close>

type_synonym VarSet = "Var list"

definition varset_eq :: "VarSet \<Rightarrow> VarSet \<Rightarrow> bool" where
  "varset_eq a b = list_all2 var_eq a b"

definition varset_subset :: "VarSet \<Rightarrow> VarSet \<Rightarrow> bool" where
  "varset_subset a b = list_all (\<lambda>v. list_ex (\<lambda>w. var_eq w v) b) a"


text \<open>
  \<^verbatim>\<open>find( first, last, x ) - first\<close>: the position of the first element that satisfies
  the test, the length of the sequence when there is none.
\<close>

fun find_pos :: "('a \<Rightarrow> bool) \<Rightarrow> 'a list \<Rightarrow> nat" where
  "find_pos P [] = 0"
| "find_pos P (x # xs) = (if P x then 0 else Suc (find_pos P xs))"


section \<open>Error kinds\<close>

text \<open>
  The error kinds a caller can observe, under the names the specification gives them.
  The enumeration of the codes is declared in exceptions.h; the table
  \<^verbatim>\<open>Exception::ErrorStrings\<close> (src/exceptions.cpp) holds their messages, among them
  "Not all mandatory Properties specified" (\<open>NotSpecified\<close>), "Unknown ENUM value"
  (\<open>UnknownEnum\<close>), "Quantity not normalizable" (\<open>NotNormalizable\<close>), "This feature is not
  implemented" (\<open>BeliefNotRepresentable\<close>) and "Internal error" (\<open>Internal\<close>).
\<close>

datatype error =
    NotSpecified
  | UnknownEnum
  | NotNormalizable
  | BeliefNotRepresentable
  | InvalidFactorGraph
  | Internal


section \<open>Probability vectors\<close>

text \<open>
  Modelled from the spec: the class \<^verbatim>\<open>Prob\<close> and its operators (prob.h is not among the
  sources). A \<^verbatim>\<open>Prob\<close> is a finite vector of reals; doubles are idealised as reals. The engine keeps every vector either in the linear representation or in the
  log representation, as \<^verbatim>\<open>props.logdomain\<close> says, so each operator takes that flag:
  "pointwise product becomes sum, power becomes scalar multiply, and normalization
  subtracts the log-sum-exp".
\<close>

type_synonym Prob = "real list"

text \<open>
  The power of one entry, as \<^verbatim>\<open>std::pow\<close> gives it on a non-negative base and a finite
  exponent: \<open>pow x 0 = 1\<close> for every \<open>x\<close> (also \<open>x = 0\<close>, where HOL's \<open>powr\<close> gives 0),
  \<open>pow x 1 = x\<close>, \<open>pow 0 a = 0\<close> for \<open>a > 0\<close>, and \<open>x powr a\<close> for \<open>x > 0\<close>. (For \<open>x = 0\<close>
  and \<open>a < 0\<close>, and for \<open>x < 0\<close> and fractional \<open>a\<close>, the double is infinite or NaN; no
  statement below depends on the value there.)
\<close>

definition pow :: "real \<Rightarrow> real \<Rightarrow> real" where
  "pow x a = (if a = 0 then 1 else if a = 1 then x else if x = 0 then 0 else x powr a)"

definition prob_pow :: "bool \<Rightarrow> Prob \<Rightarrow> real \<Rightarrow> Prob" where
  "prob_pow logdom p a = (if logdom then map (\<lambda>x. a * x) p else map (\<lambda>x. pow x a) p)"

definition prob_mul :: "bool \<Rightarrow> Prob \<Rightarrow> Prob \<Rightarrow> Prob" where
  "prob_mul logdom p q = (if logdom then map2 (+) p q else map2 (*) p q)"

text \<open>The total mass of a vector: the sum of the entries, or of their exponentials.\<close>

definition totalSum :: "bool \<Rightarrow> Prob \<Rightarrow> real" where
  "totalSum logdom p = (if logdom then sum_list (map exp p) else sum_list p)"

text \<open>
  Normalization: divide by the sum (linear), subtract the log-sum-exp (log). "If the sum
  is zero or non-finite, the computation fails with \<open>NotNormalizable\<close>"; a real is finite.
\<close>

definition normalize :: "bool \<Rightarrow> Prob \<Rightarrow> error + Prob" where
  "normalize logdom p =
     (let Z = totalSum logdom p in
      if Z = 0 then Inl NotNormalizable
      else if logdom then Inr (map (\<lambda>x. x - ln Z) p)
      else Inr (map (\<lambda>x. x / Z) p))"

text \<open>
  A vector is normalized within a tolerance \<open>eps\<close> when its sum is within \<open>eps\<close> of 1
  (linear) or its log-sum-exp is within \<open>eps\<close> of 0 (log).
\<close>

definition normalized_within :: "bool \<Rightarrow> real \<Rightarrow> Prob \<Rightarrow> bool" where
  "normalized_within logdom eps p =
     (if logdom then \<bar>ln (totalSum True p)\<bar> \<le> eps else \<bar>totalSum False p - 1\<bar> \<le> eps)"


section \<open>Factors and factor graphs\<close>

text \<open>
  Modelled from the spec: the classes \<^verbatim>\<open>Factor\<close> and \<^verbatim>\<open>FactorGraph\<close> (factor.h and
  factorgraph.h are not among the sources). A factor is "\<open>{ vars: VarSet, values: Prob
  of length |vars joint states| }\<close>", a factor graph is "\<open>{ vars: [Variable], factors:
  [Factor], incidence: BipartiteGraph }\<close>" where "the incidence graph has an edge between
  variable index \<open>i\<close> and factor index \<open>I\<close> iff \<open>vars[i] \<in> factors[I].vars\<close>", so the
  incidence is computed from the two lists.
\<close>

record Factor =
  fvars :: VarSet
  fvalues :: Prob

record FactorGraph =
  fg_vars :: "Var list"
  factors :: "Factor list"


section \<open>The BP engine (include/dai/bp.h)\<close>

text \<open>\<^verbatim>\<open>DAI_ENUM(UpdateType,SEQFIX,SEQRND,SEQMAX,PARALL)\<close>\<close>

datatype UpdateType = SEQFIX | SEQRND | SEQMAX | PARALL

text \<open>\<^verbatim>\<open>struct Properties\<close>; the two \<^verbatim>\<open>size_t\<close> fields are natural numbers.\<close>

record Properties =
  verbose :: nat
  maxiter :: nat
  tol :: real
  logdomain :: bool
  damping :: real
  updates :: UpdateType

text \<open>\<^verbatim>\<open>struct EdgeProp\<close>\<close>

record EdgeProp =
  index :: "nat list"
  message :: Prob
  newMessage :: Prob
  residual :: real

text \<open>
  The factor graph of the base class \<^verbatim>\<open>DAIAlgFG\<close> and the members of \<^verbatim>\<open>class BP\<close>:
  \<^verbatim>\<open>_edges\<close>, \<^verbatim>\<open>_maxdiff\<close>, \<^verbatim>\<open>_iters\<close> and \<^verbatim>\<open>props\<close>. \<^verbatim>\<open>_edges[i][_I]\<close> belongs to
  variable \<open>i\<close> and its \<open>_I\<close>-th neighbouring factor.
\<close>

record BP =
  fg :: FactorGraph
  edges :: "EdgeProp list list"
  maxdiff :: real
  iters :: nat
  props :: Properties

text \<open>\<^verbatim>\<open>size_t Iterations() const { return _iters; }\<close>\<close>

definition Iterations :: "BP \<Rightarrow> nat" where
  "Iterations bp = iters bp"

text \<open>\<^verbatim>\<open>double maxDiff() const { return _maxdiff; }\<close>\<close>

definition maxDiff :: "BP \<Rightarrow> real" where
  "maxDiff bp = maxdiff bp"

text \<open>An edge \<open>(i, _I)\<close> exists when both indices are in range; outside, C++ is undefined.\<close>

definition valid_edge :: "BP \<Rightarrow> nat \<Rightarrow> nat \<Rightarrow> bool" where
  "valid_edge bp i I = (i < length (edges bp) \<and> I < length (edges bp ! i))"

text \<open>The accessors \<^verbatim>\<open>message(i,_I)\<close> and \<^verbatim>\<open>newMessage(i,_I)\<close>, and the assignment to the former.\<close>

definition get_message :: "BP \<Rightarrow> nat \<Rightarrow> nat \<Rightarrow> Prob" where
  "get_message bp i I = message (edges bp ! i ! I)"

definition get_newMessage :: "BP \<Rightarrow> nat \<Rightarrow> nat \<Rightarrow> Prob" where
  "get_newMessage bp i I = newMessage (edges bp ! i ! I)"

definition set_message :: "nat \<Rightarrow> nat \<Rightarrow> Prob \<Rightarrow> BP \<Rightarrow> BP" where
  "set_message i I m bp =
     bp\<lparr>edges := (edges bp)[i := (edges bp ! i)[I := (edges bp ! i ! I)\<lparr>message := m\<rparr>]]\<rparr>"

text \<open>
  \<^verbatim>\<open>void updateMessage( size_t i, size_t _I ) {
      if( props.damping == 0.0 )
          message(i,_I) = newMessage(i,_I);
      else
          message(i,_I) = (message(i,_I) ^ props.damping) * (newMessage(i,_I) ^ (1.0 - props.damping));
  }\<close>
  The operators \<^verbatim>\<open>^\<close> and \<^verbatim>\<open>*\<close> are those of \<^verbatim>\<open>Prob\<close>, in the representation of
  the engine.
\<close>

definition updateMessage :: "nat \<Rightarrow> nat \<Rightarrow> BP \<Rightarrow> BP" where
  "updateMessage i I bp =
     (if damping (props bp) = 0 then
        set_message i I (get_newMessage bp i I) bp
      else
        set_message i I
          (prob_mul (logdomain (props bp))
             (prob_pow (logdomain (props bp)) (get_message bp i I) (damping (props bp)))
             (prob_pow (logdomain (props bp)) (get_newMessage bp i I) (1 - damping (props bp))))
          bp)"


text \<open>
  A one-edge engine for concrete evaluation: a binary variable with one factor, old
  message \<open>[1/5, 4/5]\<close>, pending message \<open>[4/5, 1/5]\<close> (both sum to 1), linear domain,
  damping \<open>d\<close>.
\<close>

definition example_bp :: "real \<Rightarrow> BP" where
  "example_bp d =
     \<lparr>fg = \<lparr>fg_vars = [var_x0],
             factors = [\<lparr>fvars = [var_x0], fvalues = [1, 4]\<rparr>]\<rparr>,
      edges = [[\<lparr>index = [0, 1], message = [1/5, 4/5], newMessage = [4/5, 1/5], residual = 0\<rparr>]],
      maxdiff = 0, iters = 0,
      props = \<lparr>verbose = 0, maxiter = 100, tol = 0, logdomain = False, damping = d,
               updates = SEQFIX\<rparr>\<rparr>"


section \<open>Configuration and construction of the engine\<close>

text \<open>
  Modelled from the spec: the class \<^verbatim>\<open>PropertySet\<close> (properties.h) and the body of
  \<^verbatim>\<open>BP::setProperties\<close> (bp.h declares it; bp.cpp and properties.h are not among the
  sources). "Configuration is passed as a bag of name\<rightarrow>value pairs; unknown keys are
  accepted silently, missing mandatory keys (\<open>tol\<close>, \<open>maxiter\<close>, \<open>logdomain\<close>, \<open>updates\<close>)
  fail with \<open>NotSpecified\<close>. Values may be supplied as strings and parsed into the target
  type." The type \<open>'v\<close> of the values and the four conversions into the target types
  are parameters; a conversion may fail (\<open>UnknownEnum\<close> for a value that names no
  scheduling variant).
\<close>

type_synonym 'v PropertySet = "string \<rightharpoonup> 'v"

record 'v Conversions =
  as_size :: "'v \<Rightarrow> error + nat"
  as_real :: "'v \<Rightarrow> error + real"
  as_bool :: "'v \<Rightarrow> error + bool"
  as_updates :: "'v \<Rightarrow> error + UpdateType"

definition mandatory_keys :: "string list" where
  "mandatory_keys = [''tol'', ''maxiter'', ''logdomain'', ''updates'']"

text \<open>The options of the table in section 4.3 of the specification.\<close>

definition recognized_keys :: "string list" where
  "recognized_keys = mandatory_keys @ [''verbose'', ''damping'']"

definition hasKey :: "'v PropertySet \<Rightarrow> string \<Rightarrow> bool" where
  "hasKey opts k = (opts k \<noteq> None)"

text \<open>The value of a key in its target type; an absent key keeps the value given.\<close>

definition get_as :: "('v \<Rightarrow> error + 'a) \<Rightarrow> 'v PropertySet \<Rightarrow> string \<Rightarrow> 'a \<Rightarrow> error + 'a" where
  "get_as conv opts k dflt = (case opts k of None \<Rightarrow> Inr dflt | Some v \<Rightarrow> conv v)"

text \<open>
  \<open>setProperties\<close> works on the member \<^verbatim>\<open>props\<close>, here the argument \<open>p\<close>: the two
  options that are not mandatory, \<open>verbose\<close> and \<open>damping\<close>, keep their value when the
  bag does not have them.
\<close>

definition setProperties :: "'v Conversions \<Rightarrow> 'v PropertySet \<Rightarrow> Properties \<Rightarrow> error + Properties"
  where
  "setProperties cv opts p =
     (if \<not> list_all (hasKey opts) mandatory_keys then Inl NotSpecified
      else
        case get_as (as_real cv) opts ''tol'' (tol p) of Inl e \<Rightarrow> Inl e | Inr t \<Rightarrow>
        case get_as (as_size cv) opts ''maxiter'' (maxiter p) of Inl e \<Rightarrow> Inl e | Inr m \<Rightarrow>
        case get_as (as_bool cv) opts ''logdomain'' (logdomain p) of Inl e \<Rightarrow> Inl e | Inr l \<Rightarrow>
        case get_as (as_updates cv) opts ''updates'' (updates p) of Inl e \<Rightarrow> Inl e | Inr u \<Rightarrow>
        case get_as (as_size cv) opts ''verbose'' (verbose p) of Inl e \<Rightarrow> Inl e | Inr v \<Rightarrow>
        case get_as (as_real cv) opts ''damping'' (damping p) of Inl e \<Rightarrow> Inl e | Inr d \<Rightarrow>
          Inr \<lparr>verbose = v, maxiter = m, tol = t, logdomain = l, damping = d, updates = u\<rparr>)"

text \<open>
  The value-initialized member \<^verbatim>\<open>props()\<close> of the constructors; \<^verbatim>\<open>SEQFIX\<close> is the first
  value of the enumeration.
\<close>

definition initial_props :: Properties where
  "initial_props =
     \<lparr>verbose = 0, maxiter = 0, tol = 0, logdomain = False, damping = 0, updates = SEQFIX\<rparr>"

text \<open>
  \<^verbatim>\<open>BP( const FactorGraph & fg, const PropertySet &opts )
      : DAIAlgFG(fg), _edges(), _maxdiff(0.0), _iters(0U), props() {
      setProperties( opts );
      construct();
  }\<close>
  \<^verbatim>\<open>construct()\<close> (bp.cpp) builds the edge tables from the graph; it is the parameter
  \<open>build_edges\<close>. An exception of \<^verbatim>\<open>setProperties\<close> leaves the constructor before
  \<^verbatim>\<open>construct()\<close> is reached.
\<close>

definition BP_new ::
  "'v Conversions \<Rightarrow> (FactorGraph \<Rightarrow> Properties \<Rightarrow> error + EdgeProp list list)
    \<Rightarrow> FactorGraph \<Rightarrow> 'v PropertySet \<Rightarrow> error + BP" where
  "BP_new cv build_edges g opts =
     (case setProperties cv opts initial_props of
        Inl e \<Rightarrow> Inl e
      | Inr p \<Rightarrow>
          (case build_edges g p of
             Inl e \<Rightarrow> Inl e
           | Inr es \<Rightarrow> Inr \<lparr>fg = g, edges = es, maxdiff = 0, iters = 0, props = p\<rparr>))"

text \<open>
  Conversions and bags for concrete evaluation: the values are natural numbers, an
  \<open>updates\<close> value beyond 3 names no variant.
\<close>

definition nat_conversions :: "nat Conversions" where
  "nat_conversions =
     \<lparr>as_size = Inr,
      as_real = (\<lambda>v. Inr (real v)),
      as_bool = (\<lambda>v. Inr (v \<noteq> 0)),
      as_updates = (\<lambda>v. if v = 0 then Inr SEQFIX else if v = 1 then Inr SEQRND
                         else if v = 2 then Inr SEQMAX else if v = 3 then Inr PARALL
                         else Inl UnknownEnum)\<rparr>"

definition full_options :: "nat PropertySet" where
  "full_options = [''tol'' \<mapsto> 1, ''maxiter'' \<mapsto> 10, ''logdomain'' \<mapsto> 0, ''updates'' \<mapsto> 3]"

definition options_without_tol :: "nat PropertySet" where
  "options_without_tol = [''maxiter'' \<mapsto> 10, ''logdomain'' \<mapsto> 0, ''updates'' \<mapsto> 3]"

definition unknown_options :: "nat PropertySet" where
  "unknown_options = [''colour'' \<mapsto> 7]"


section \<open>Running the engine\<close>

text \<open>
  Modelled from the spec: the body of \<^verbatim>\<open>BP::run\<close> (bp.h declares it; bp.cpp is not among
  the sources). "Track, per iteration, the \<open>L\<infinity>\<close> distance between each
  single-variable belief computed from the current messages and that computed from the
  previous iteration. \<open>run()\<close> stops when this maximum is \<open>\<le> tol\<close> or when \<open>maxiter\<close> full
  iterations are reached. It returns the achieved maximum distance. \<open>maxDiff()\<close> exposes
  the largest such distance seen; \<open>Iterations()\<close> returns the count of completed
  passes." And: "Per-iteration numerical failures abort \<open>run()\<close> and surface to the
  caller with the current iteration count and best \<open>maxDiff\<close> preserved".

  One full iteration under the configured schedule is the parameter \<open>pass\<close>: from the
  properties and the edge tables it gives the new edge tables and the maximum distance
  between the single-variable beliefs before and after, or fails. \<open>n\<close> counts the
  iterations that remain and \<open>d\<close> is the distance of the last pass; before the first
  pass it is the parameter \<open>d0\<close> of \<open>run\<close>, which is returned only when \<open>maxiter = 0\<close>.
\<close>

type_synonym Pass = "Properties \<Rightarrow> EdgeProp list list \<Rightarrow> error + EdgeProp list list \<times> real"

fun run_loop :: "Pass \<Rightarrow> nat \<Rightarrow> real \<Rightarrow> BP \<Rightarrow> (error + real) \<times> BP" where
  "run_loop pass 0 d bp = (Inr d, bp)"
| "run_loop pass (Suc n) d bp =
     (case pass (props bp) (edges bp) of
        Inl e \<Rightarrow> (Inl e, bp)
      | Inr (es, d') \<Rightarrow>
          (let bp' = bp\<lparr>edges := es, iters := Suc (iters bp), maxdiff := max (maxdiff bp) d'\<rparr>
           in if d' \<le> tol (props bp) then (Inr d', bp') else run_loop pass n d' bp'))"

definition run :: "Pass \<Rightarrow> real \<Rightarrow> BP \<Rightarrow> (error + real) \<times> BP" where
  "run pass d0 bp = run_loop pass (maxiter (props bp)) d0 (bp\<lparr>iters := 0\<rparr>)"

text \<open>
  For the statements about \<open>run\<close>: the distances of the first \<open>n\<close> passes made one after
  the other from the edge tables \<open>es\<close> without any convergence test (up to the first
  pass that fails), and the edge tables after them.
\<close>

fun pass_dists :: "Pass \<Rightarrow> Properties \<Rightarrow> nat \<Rightarrow> EdgeProp list list \<Rightarrow> real list" where
  "pass_dists pass p 0 es = []"
| "pass_dists pass p (Suc n) es =
     (case pass p es of Inl e \<Rightarrow> [] | Inr (es', d) \<Rightarrow> d # pass_dists pass p n es')"

fun after_passes :: "Pass \<Rightarrow> Properties \<Rightarrow> nat \<Rightarrow> EdgeProp list list \<Rightarrow> EdgeProp list list"
  where
  "after_passes pass p 0 es = es"
| "after_passes pass p (Suc n) es =
     (case pass p es of Inl e \<Rightarrow> es | Inr (es', d) \<Rightarrow> after_passes pass p n es')"

text \<open>
  A pass and an engine for concrete evaluation: the pass halves the residual of every
  edge and reports the halved residual of the first edge as the distance; the engine
  has one edge of residual 1, \<open>tol = 1/4\<close> and \<open>maxiter = 5\<close>.
\<close>

definition halving_pass :: Pass where
  "halving_pass p es =
     Inr (map (map (\<lambda>e. e\<lparr>residual := residual e / 2\<rparr>)) es, residual (es ! 0 ! 0) / 2)"

definition halving_bp :: BP where
  "halving_bp =
     \<lparr>fg = \<lparr>fg_vars = [var_x0],
             factors = [\<lparr>fvars = [var_x0], fvalues = [1, 4]\<rparr>]\<rparr>,
      edges = [[\<lparr>index = [0, 1], message = [1/2, 1/2], newMessage = [1/5, 4/5], residual = 1\<rparr>]],
      maxdiff = 0, iters = 0,
      props = \<lparr>verbose = 0, maxiter = 5, tol = 1/4, logdomain = False, damping = 0,
               updates = PARALL\<rparr>\<rparr>"


section \<open>Beliefs over sets of variables\<close>














text \<open>
  Engines for concrete evaluation, with uniform messages: the variables \<open>x0\<close> and \<open>x1\<close>
  under one factor with the table \<open>[1, 2, 3, 4, 5, 6]\<close>; and the variable \<open>x0\<close> alone
  under a factor that is zero everywhere.
\<close>

definition pair_bp :: BP where
  "pair_bp =
     \<lparr>fg = \<lparr>fg_vars = [var_x0, var_x1],
             factors = [\<lparr>fvars = [var_x0, var_x1],
                         fvalues = [1, 2, 3, 4, 5, 6]\<rparr>]\<rparr>,
      edges = [[\<lparr>index = [0, 1, 0, 1, 0, 1], message = [1/2, 1/2],
                 newMessage = [1/2, 1/2], residual = 0\<rparr>],
               [\<lparr>index = [0, 0, 1, 1, 2, 2], message = [1/3, 1/3, 1/3],
                 newMessage = [1/3, 1/3, 1/3], residual = 0\<rparr>]],
      maxdiff = 0, iters = 0,
      props = \<lparr>verbose = 0, maxiter = 100, tol = 0, logdomain = False, damping = 0,
               updates = SEQFIX\<rparr>\<rparr>"



section \<open>Bipartite graphs\<close>

text \<open>
  Modelled from the spec: the class \<^verbatim>\<open>BipartiteGraph\<close> (bipgraph.h is not among the
  sources): "two arrays of neighbor lists", one list for every node of type 1 (the
  variables) and one for every node of type 2 (the clusters). An entry of a neighbour
  list is modelled by the index of the node it points to; the position it carries as
  well is determined by the lists and is left out.
\<close>

record BipartiteGraph =
  nb1 :: "nat list list"
  nb2 :: "nat list list"

definition nrNodes1 :: "BipartiteGraph \<Rightarrow> nat" where
  "nrNodes1 B = length (nb1 B)"

definition nrNodes2 :: "BipartiteGraph \<Rightarrow> nat" where
  "nrNodes2 B = length (nb2 B)"

text \<open>\<^verbatim>\<open>addNode1()\<close> appends a node of type 1 without neighbours.\<close>

definition addNode1 :: "BipartiteGraph \<Rightarrow> BipartiteGraph" where
  "addNode1 B = B\<lparr>nb1 := nb1 B @ [[]]\<rparr>"

text \<open>
  \<^verbatim>\<open>addNode2( begin, end, sizeHint )\<close> appends a node of type 2 with the given neighbours
  and enters it, in turn, at the end of the list of each of them.
\<close>

fun add_edges :: "nat \<Rightarrow> nat list \<Rightarrow> nat list list \<Rightarrow> nat list list" where
  "add_edges n2 [] ns = ns"
| "add_edges n2 (n1 # rest) ns = add_edges n2 rest (ns[n1 := ns ! n1 @ [n2]])"

definition addNode2 :: "nat list \<Rightarrow> BipartiteGraph \<Rightarrow> BipartiteGraph" where
  "addNode2 nbs B = \<lparr>nb1 = add_edges (nrNodes2 B) nbs (nb1 B), nb2 = nb2 B @ [nbs]\<rparr>"

text \<open>\<^verbatim>\<open>v.erase( v.begin() + n )\<close> on a vector.\<close>

definition erase_at :: "nat \<Rightarrow> 'a list \<Rightarrow> 'a list" where
  "erase_at n xs = take n xs @ drop (Suc n) xs"

text \<open>
  \<^verbatim>\<open>eraseNode2( n2 )\<close> removes node \<open>n2\<close> of type 2: its list goes, every entry that
  points to it goes, and the entries that point to a later node are renumbered.
\<close>

definition eraseNode2 :: "nat \<Rightarrow> BipartiteGraph \<Rightarrow> BipartiteGraph" where
  "eraseNode2 n2 B =
     \<lparr>nb1 = map (\<lambda>ns. map (\<lambda>m. if m > n2 then m - 1 else m) (filter (\<lambda>m. m \<noteq> n2) ns))
              (nb1 B),
      nb2 = erase_at n2 (nb2 B)\<rparr>"


section \<open>Cluster graphs (include/dai/clustergraph.h)\<close>

text \<open>The members \<^verbatim>\<open>G\<close>, \<^verbatim>\<open>vars\<close> and \<^verbatim>\<open>clusters\<close> of \<^verbatim>\<open>class ClusterGraph\<close>.\<close>

record ClusterGraph =
  G :: BipartiteGraph
  vars :: "Var list"
  clusters :: "VarSet list"

text \<open>\<^verbatim>\<open>ClusterGraph() : G(), vars(), clusters() {}\<close>\<close>

definition empty_ClusterGraph :: ClusterGraph where
  "empty_ClusterGraph = \<lparr>G = \<lparr>nb1 = [], nb2 = []\<rparr>, vars = [], clusters = []\<rparr>"

text \<open>
  \<^verbatim>\<open>bool isMaximal( size_t I ) const\<close>. The two nested loops leave at the first
  neighbour \<open>i\<close> of \<open>I\<close> and the first neighbour \<open>J\<close> of \<open>i\<close> with
  \<^verbatim>\<open>(J != I) && (clI << clusters[J])\<close>; the result is \<open>True\<close> when there is no such pair.
\<close>

definition isMaximal :: "ClusterGraph \<Rightarrow> nat \<Rightarrow> bool" where
  "isMaximal g I =
     (\<not> list_ex (\<lambda>i. list_ex (\<lambda>J. J \<noteq> I \<and> varset_subset (clusters g ! I) (clusters g ! J))
                          (nb1 (G g) ! i))
                (nb2 (G g) ! I))"

text \<open>
  The loop of \<^verbatim>\<open>insert\<close> over the variables \<open>n\<close> of the new cluster: look \<open>n\<close> up in
  \<^verbatim>\<open>vars\<close>, note its position in \<^verbatim>\<open>nbs\<close>, and add it as a new node when it is not there.
\<close>

fun insert_vars :: "Var list \<Rightarrow> BipartiteGraph \<times> Var list \<times> nat list
    \<Rightarrow> BipartiteGraph \<times> Var list \<times> nat list" where
  "insert_vars [] st = st"
| "insert_vars (n # ns) (B, vs, nbs) =
     (let iter = find_pos (\<lambda>v. var_eq v n) vs in
      insert_vars ns
        (if iter = length vs then (addNode1 B, vs @ [n], nbs @ [iter])
         else (B, vs, nbs @ [iter])))"

text \<open>
  \<^verbatim>\<open>void insert( const VarSet &cl )\<close>: "Inserts a cluster (if it does not already exist)".
\<close>

definition insert_cluster :: "VarSet \<Rightarrow> ClusterGraph \<Rightarrow> ClusterGraph" where
  "insert_cluster cl g =
     (if find_pos (\<lambda>c. varset_eq c cl) (clusters g) = length (clusters g) then
        (case insert_vars cl (G g, vars g, []) of
           (B, vs, nbs) \<Rightarrow> \<lparr>G = addNode2 nbs B, vars = vs, clusters = clusters g @ [cl]\<rparr>)
      else g)"

text \<open>
  \<^verbatim>\<open>ClusterGraph& eraseNonMaximal()\<close>: "Erases all clusters that are not maximal".
  \<^verbatim>\<open>for( size_t I = 0; I < G.nrNodes2(); ) {
      if( !isMaximal(I) ) { clusters.erase( clusters.begin() + I ); G.eraseNode2(I); }
      else I++;
  }\<close>
  The loop is the function \<open>eraseNonMaximal_from\<close> of the counter \<open>I\<close> and the graph.
\<close>

function eraseNonMaximal_from :: "nat \<Rightarrow> ClusterGraph \<Rightarrow> ClusterGraph" where
  "eraseNonMaximal_from I g =
     (if I < nrNodes2 (G g) then
        (if \<not> isMaximal g I then
           eraseNonMaximal_from I
             (g\<lparr>clusters := erase_at I (clusters g), G := eraseNode2 I (G g)\<rparr>)
         else eraseNonMaximal_from (Suc I) g)
      else g)"
  by pat_completeness auto
termination
  by (relation "measure (\<lambda>(I, g). nrNodes2 (G g) - I)")
     (auto simp: nrNodes2_def eraseNode2_def erase_at_def)

declare eraseNonMaximal_from.simps [simp del]

definition eraseNonMaximal :: "ClusterGraph \<Rightarrow> ClusterGraph" where
  "eraseNonMaximal g = eraseNonMaximal_from 0 g"

text \<open>The step of the loop that erases cluster \<open>I\<close>.\<close>

definition erase_cluster :: "nat \<Rightarrow> ClusterGraph \<Rightarrow> ClusterGraph" where
  "erase_cluster I g = g\<lparr>clusters := erase_at I (clusters g), G := eraseNode2 I (G g)\<rparr>"

text \<open>
  The class invariant of a cluster graph: the bipartite graph has one node of type 1
  for every variable and one node of type 2 for every cluster; the neighbours of
  cluster \<open>I\<close> are the variables of \<open>clusters[I]\<close>, the neighbours of variable \<open>i\<close> are the
  clusters that have \<open>i\<close> among their neighbours; every variable of a cluster is in
  \<open>vars\<close>; and no two entries of \<open>vars\<close> have the same label.
\<close>

definition wf_ClusterGraph :: "ClusterGraph \<Rightarrow> bool" where
  "wf_ClusterGraph g =
     (length (nb2 (G g)) = length (clusters g)
      \<and> length (nb1 (G g)) = length (vars g)
      \<and> (\<forall>I < length (clusters g). \<forall>i. i \<in> set (nb2 (G g) ! I) \<longleftrightarrow>
            i < length (vars g) \<and> (\<exists>v \<in> set (clusters g ! I). var_eq (vars g ! i) v))
      \<and> (\<forall>i < length (vars g). \<forall>J. J \<in> set (nb1 (G g) ! i) \<longleftrightarrow>
            J < length (clusters g) \<and> i \<in> set (nb2 (G g) ! J))
      \<and> (\<forall>I < length (clusters g). \<forall>v \<in> set (clusters g ! I).
            \<exists>i < length (vars g). var_eq (vars g ! i) v)
      \<and> distinct (map label (vars g)))"

text \<open>Cluster \<open>I\<close> of the list \<open>cs\<close> is maximal: it is a subset of no other cluster of \<open>cs\<close>.\<close>

definition maximal_in :: "VarSet list \<Rightarrow> nat \<Rightarrow> bool" where
  "maximal_in cs I = (\<forall>J < length cs. J \<noteq> I \<longrightarrow> \<not> varset_subset (cs ! I) (cs ! J))"

text \<open>
  A cluster graph for concrete evaluation: the empty cluster and the cluster of the
  binary variable \<open>x0\<close>, inserted in this order into the empty graph.
\<close>

definition empty_and_singleton :: ClusterGraph where
  "empty_and_singleton = insert_cluster [var_x0] (insert_cluster [] empty_ClusterGraph)"


section \<open>Properties of the comparison operators\<close>

lemma var_eq_refl: "var_eq v v"
  by (simp add: var_eq_def)

lemma var_eq_sym: "var_eq v w = var_eq w v"
  by (auto simp: var_eq_def)

lemma var_eq_trans: "var_eq u v \<Longrightarrow> var_eq v w \<Longrightarrow> var_eq u w"
  by (simp add: var_eq_def)

lemma var_less_trans: "var_less u v \<Longrightarrow> var_less v w \<Longrightarrow> var_less u w"
  by (simp add: var_less_def word_sless_alt)


lemma var_trichotomy: "var_less v w \<or> var_eq v w \<or> var_less w v"
  by (auto simp: var_less_def var_eq_def word_sless_alt signed_word_eqI)

text \<open>
  Claim C6. Equality, inequality and the four order comparisons of two variables are
  decided by the labels alone: \<open>v == w\<close> holds exactly when the labels are equal,
  \<open>v < w\<close> exactly when the (signed) label of \<open>v\<close> is below that of \<open>w\<close>, the other
  operators likewise, and replacing the \<open>states\<close> field of either operand changes no
  comparison.
\<close>

theorem var_comparisons_by_label:
  "var_eq v w = (label v = label w)
   \<and> var_not_eq v w = (label v \<noteq> label w)
   \<and> var_less v w = (sint (label v) < sint (label w))
   \<and> var_greater v w = (sint (label v) > sint (label w))
   \<and> var_less_eq v w = (sint (label v) \<le> sint (label w))
   \<and> var_greater_eq v w = (sint (label v) \<ge> sint (label w))
   \<and> var_eq (v\<lparr>states := s\<rparr>) (w\<lparr>states := t\<rparr>) = var_eq v w
   \<and> var_not_eq (v\<lparr>states := s\<rparr>) (w\<lparr>states := t\<rparr>) = var_not_eq v w
   \<and> var_less (v\<lparr>states := s\<rparr>) (w\<lparr>states := t\<rparr>) = var_less v w
   \<and> var_greater (v\<lparr>states := s\<rparr>) (w\<lparr>states := t\<rparr>) = var_greater v w
   \<and> var_less_eq (v\<lparr>states := s\<rparr>) (w\<lparr>states := t\<rparr>) = var_less_eq v w
   \<and> var_greater_eq (v\<lparr>states := s\<rparr>) (w\<lparr>states := t\<rparr>) = var_greater_eq v w"
  by (simp add: var_eq_def var_not_eq_def var_less_def var_greater_def var_less_eq_def
      var_greater_eq_def word_sless_alt word_sle_eq)


section \<open>Committing a message\<close>

lemma get_set_message:
  "valid_edge bp i I \<Longrightarrow> get_message (set_message i I m bp) i I = m"
  by (simp add: valid_edge_def get_message_def set_message_def)

lemma set_message_same: "set_message i I (get_message bp i I) bp = bp"
  by (simp add: get_message_def set_message_def)

lemma prob_pow_one: "prob_pow ld p 1 = p"
  by (simp add: prob_pow_def pow_def map_idI)

lemma prob_mul_pow_zero:
  "length p \<le> length q \<Longrightarrow> prob_mul ld p (prob_pow ld q 0) = p"
  by (induction p arbitrary: q)
    (auto simp: prob_mul_def prob_pow_def pow_def Suc_le_length_iff)

lemma prob_mul_pow_entries:
  "prob_mul ld (prob_pow ld p a) (prob_pow ld q b) =
     map2 (\<lambda>x y. if ld then a * x + b * y else pow x a * pow y b) p q"
  by (auto simp: prob_mul_def prob_pow_def zip_map_map)

lemma valid_edge_example: "valid_edge (example_bp d) 0 0"
  by (simp add: valid_edge_def example_bp_def)

text \<open>
  Claim C7. With damping exactly 0, \<open>updateMessage\<close> stores the pending message
  \<open>newMessage(i,_I)\<close> as the message of the edge, unchanged.
\<close>

theorem updateMessage_no_damping:
  assumes "valid_edge bp i I" and "damping (props bp) = 0"
  shows "get_message (updateMessage i I bp) i I = get_newMessage bp i I"
  using assms by (simp add: updateMessage_def get_set_message)

theorem updateMessage_no_damping_witness:
  "valid_edge (example_bp 0) 0 0 \<and> damping (props (example_bp 0)) = 0
   \<and> get_message (updateMessage 0 0 (example_bp 0)) 0 0 = [4/5, 1/5]"
proof -
  have d: "damping (props (example_bp 0)) = 0" by (simp add: example_bp_def)
  show ?thesis
    using updateMessage_no_damping [OF valid_edge_example d] valid_edge_example d
    by (simp add: get_newMessage_def example_bp_def)
qed

text \<open>
  Claim C8. With damping exactly 1, \<open>updateMessage\<close> computes \<open>old^1 * new^0\<close>, which
  is the old message: the engine is left as it was, so no message ever changes. (Old
  and pending message of an edge have the same length, the number of states of the
  variable.)
\<close>

theorem updateMessage_damping_one:
  assumes "damping (props bp) = 1"
    and "length (get_message bp i I) = length (get_newMessage bp i I)"
  shows "updateMessage i I bp = bp"
  using assms by (simp add: updateMessage_def prob_pow_one prob_mul_pow_zero set_message_same)

theorem updateMessage_damping_one_witness:
  "damping (props (example_bp 1)) = 1
   \<and> length (get_message (example_bp 1) 0 0) = length (get_newMessage (example_bp 1) 0 0)
   \<and> updateMessage 0 0 (example_bp 1) = example_bp 1
   \<and> get_message (updateMessage 0 0 (example_bp 1)) 0 0 = [1/5, 4/5]"
proof -
  have d: "damping (props (example_bp 1)) = 1" by (simp add: example_bp_def)
  have l: "length (get_message (example_bp 1) 0 0) = length (get_newMessage (example_bp 1) 0 0)"
    by (simp add: example_bp_def get_message_def get_newMessage_def)
  have "updateMessage 0 0 (example_bp 1) = example_bp 1"
    by (rule updateMessage_damping_one [OF d l])
  moreover from this have "get_message (updateMessage 0 0 (example_bp 1)) 0 0 = [1/5, 4/5]"
    by (simp add: example_bp_def get_message_def)
  ultimately show ?thesis using d l by simp
qed


section \<open>Damping does not renormalize\<close>

lemma powr_half_4_25: "(4/25::real) powr (1/2) = 2/5"
proof -
  have "(4/25::real) = (2/5)\<^sup>2" by (simp add: power2_eq_square)
  then have "(4/25::real) powr (1/2) = \<bar>2/5\<bar>" by (simp only: square_powr_half)
  then show ?thesis by simp
qed

lemma geometric_mean_example: "(1/5::real) powr (1/2) * (4/5) powr (1/2) = 2/5"
proof -
  have "(1/5::real) powr (1/2) * (4/5) powr (1/2) = ((1/5) * (4/5)) powr (1/2)"
    by (simp only: powr_mult)
  also have "\<dots> = (4/25) powr (1/2)" by simp
  finally show ?thesis by (simp only: powr_half_4_25)
qed

lemma example_damped_message:
  "get_message (updateMessage 0 0 (example_bp (1/2))) 0 0 = [2/5, 2/5]"
proof -
  have g2: "(4/5::real) powr (1/2) * (1/5) powr (1/2) = 2/5"
    using geometric_mean_example by (simp only: mult.commute)
  show ?thesis
    using geometric_mean_example g2
    by (simp add: updateMessage_def example_bp_def get_message_def get_newMessage_def
        set_message_def prob_mul_def prob_pow_def pow_def)
qed

text \<open>
  Claim C1, as stated, fails. With damping \<open>1/2\<close>, old message \<open>[1/5, 4/5]\<close> and pending
  message \<open>[4/5, 1/5]\<close>, the stored message becomes \<open>[2/5, 2/5]\<close>, while the normalization
  of \<open>old^d * new^(1-d)\<close> is \<open>[1/2, 1/2]\<close>.
\<close>

theorem updateMessage_damped_counterexample:
  "valid_edge (example_bp (1/2)) 0 0
   \<and> get_message (updateMessage 0 0 (example_bp (1/2))) 0 0 = [2/5, 2/5]
   \<and> normalize False
        (prob_mul False (prob_pow False (get_message (example_bp (1/2)) 0 0) (1/2))
                        (prob_pow False (get_newMessage (example_bp (1/2)) 0 0) (1 - 1/2)))
       = Inr [1/2, 1/2]
   \<and> [2/5, 2/5] \<noteq> [1/2, 1/2 :: real]"
proof -
  have g2: "(4/5::real) powr (1/2) * (1/5) powr (1/2) = 2/5"
    using geometric_mean_example by (simp only: mult.commute)
  have "prob_mul False (prob_pow False (get_message (example_bp (1/2)) 0 0) (1/2))
                        (prob_pow False (get_newMessage (example_bp (1/2)) 0 0) (1 - 1/2))
        = [2/5, 2/5]"
    using geometric_mean_example g2
    by (simp add: example_bp_def get_message_def get_newMessage_def prob_mul_def prob_pow_def
        pow_def)
  then show ?thesis
    by (simp add: example_damped_message valid_edge_example normalize_def totalSum_def)
qed

text \<open>
  Claim C1, amended. For damping \<open>0 < d < 1\<close>, \<open>updateMessage\<close> stores, entry by entry,
  \<open>old^d * new^(1-d)\<close> in the linear domain and \<open>d * old + (1-d) * new\<close> in the log domain.
  The result is stored as it is, without normalization.
\<close>

theorem updateMessage_damped:
  assumes "valid_edge bp i I" and "0 < damping (props bp)" and "damping (props bp) < 1"
  shows "get_message (updateMessage i I bp) i I =
     map2 (\<lambda>x y. if logdomain (props bp)
                  then damping (props bp) * x + (1 - damping (props bp)) * y
                  else pow x (damping (props bp)) * pow y (1 - damping (props bp)))
       (get_message bp i I) (get_newMessage bp i I)"
  using assms by (simp add: updateMessage_def get_set_message prob_mul_pow_entries)

theorem updateMessage_damped_witness:
  "valid_edge (example_bp (1/2)) 0 0
   \<and> 0 < damping (props (example_bp (1/2))) \<and> damping (props (example_bp (1/2))) < 1
   \<and> get_message (updateMessage 0 0 (example_bp (1/2))) 0 0
       = [pow (1/5) (1/2) * pow (4/5) (1/2), pow (4/5) (1/2) * pow (1/5) (1/2)]"
proof -
  have d: "0 < damping (props (example_bp (1/2)))" "damping (props (example_bp (1/2))) < 1"
    by (simp_all add: example_bp_def)
  show ?thesis
    using updateMessage_damped [OF valid_edge_example d] valid_edge_example d
    by (simp add: example_bp_def get_message_def get_newMessage_def)
qed


section \<open>The mass of a damped message\<close>

text \<open>The tangent of the logarithm at \<open>w\<close> lies above it.\<close>

lemma ln_tangent:
  fixes x w :: real
  assumes "0 < x" "0 < w"
  shows "ln x \<le> ln w + (x - w) / w"
proof -
  have "ln (x / w) \<le> x / w - 1"
    using assms by (simp add: ln_le_minus_one)
  moreover have "ln (x / w) = ln x - ln w"
    using assms by (simp add: ln_div)
  moreover have "x / w - 1 = (x - w) / w"
    using assms by (simp add: field_simps)
  ultimately show ?thesis by linarith
qed

text \<open>The weighted geometric mean of two positive reals is at most the arithmetic one.\<close>

lemma weighted_geo_le_arith:
  fixes d x y :: real
  assumes d: "0 < d" "d < 1" and x: "0 < x" and y: "0 < y"
  shows "x powr d * y powr (1 - d) \<le> d * x + (1 - d) * y"
proof -
  define w where "w = d * x + (1 - d) * y"
  have w: "0 < w"
  proof -
    have "0 < d * x" "0 < (1 - d) * y" using d x y by simp_all
    then show ?thesis unfolding w_def by linarith
  qed
  have "d * ln x \<le> d * (ln w + (x - w) / w)"
    using ln_tangent [OF x w] d by (simp add: mult_left_mono)
  moreover have "(1 - d) * ln y \<le> (1 - d) * (ln w + (y - w) / w)"
    using ln_tangent [OF y w] d by (simp add: mult_left_mono)
  moreover have "d * (ln w + (x - w) / w) + (1 - d) * (ln w + (y - w) / w) = ln w"
  proof -
    have "d * (ln w + (x - w) / w) + (1 - d) * (ln w + (y - w) / w)
        = ln w + (d * x + (1 - d) * y - w) / w"
      using w by (simp add: field_simps)
    then show ?thesis by (simp add: w_def)
  qed
  ultimately have "d * ln x + (1 - d) * ln y \<le> ln w" by linarith
  then have "exp (d * ln x + (1 - d) * ln y) \<le> w"
    using w by (metis exp_le_cancel_iff exp_ln)
  moreover have "x powr d * y powr (1 - d) = exp (d * ln x + (1 - d) * ln y)"
    using x y by (simp add: powr_def exp_add)
  ultimately show ?thesis by (simp add: w_def)
qed

lemma pow_geo_le_arith:
  assumes d: "0 < d" "d < 1" and x: "0 \<le> x" and y: "0 \<le> y"
  shows "pow x d * pow y (1 - d) \<le> d * x + (1 - d) * y"
proof (cases "x = 0 \<or> y = 0")
  case True
  then show ?thesis using d x y by (auto simp: pow_def)
next
  case False
  then have "0 < x" "0 < y" using x y by auto
  then show ?thesis
    using weighted_geo_le_arith [OF d] d by (simp add: pow_def)
qed

lemma exp_geo_le_arith:
  fixes d a b :: real
  assumes d: "0 < d" "d < 1"
  shows "exp (d * a + (1 - d) * b) \<le> d * exp a + (1 - d) * exp b"
proof -
  have "exp a powr d * exp b powr (1 - d) \<le> d * exp a + (1 - d) * exp b"
    by (rule weighted_geo_le_arith [OF d]) simp_all
  then show ?thesis by (simp add: powr_def exp_add)
qed

lemma damped_sum_linear:
  assumes d: "0 < d" "d < 1"
  shows "length p = length q \<Longrightarrow> \<forall>x \<in> set p. 0 \<le> x \<Longrightarrow> \<forall>y \<in> set q. 0 \<le> y \<Longrightarrow>
    totalSum False (prob_mul False (prob_pow False p d) (prob_pow False q (1 - d)))
      \<le> d * totalSum False p + (1 - d) * totalSum False q"
proof (induction p q rule: list_induct2)
  case Nil
  then show ?case by (simp add: totalSum_def prob_mul_def prob_pow_def)
next
  case (Cons x xs y ys)
  have "pow x d * pow y (1 - d) \<le> d * x + (1 - d) * y"
    using Cons.prems by (intro pow_geo_le_arith [OF d]) simp_all
  moreover have
    "totalSum False (prob_mul False (prob_pow False xs d) (prob_pow False ys (1 - d)))
      \<le> d * totalSum False xs + (1 - d) * totalSum False ys"
    using Cons by simp
  ultimately show ?case
    by (simp add: totalSum_def prob_mul_def prob_pow_def algebra_simps)
qed

lemma damped_sum_log:
  assumes d: "0 < d" "d < 1"
  shows "length p = length q \<Longrightarrow>
    totalSum True (prob_mul True (prob_pow True p d) (prob_pow True q (1 - d)))
      \<le> d * totalSum True p + (1 - d) * totalSum True q"
proof (induction p q rule: list_induct2)
  case Nil
  then show ?case by (simp add: totalSum_def prob_mul_def prob_pow_def)
next
  case (Cons x xs y ys)
  have "exp (d * x + (1 - d) * y) \<le> d * exp x + (1 - d) * exp y"
    by (rule exp_geo_le_arith [OF d])
  moreover have
    "totalSum True (prob_mul True (prob_pow True xs d) (prob_pow True ys (1 - d)))
      \<le> d * totalSum True xs + (1 - d) * totalSum True ys"
    using Cons by simp
  ultimately show ?case
    by (simp add: totalSum_def prob_mul_def prob_pow_def algebra_simps)
qed

text \<open>
  Claim C2, as stated, fails. With damping \<open>1/2\<close>, the old message \<open>[1/5, 4/5]\<close> and the
  pending message \<open>[4/5, 1/5]\<close> both sum to exactly 1, and the committed message sums to
  \<open>4/5\<close>: it is not normalized, even within a tolerance of \<open>1/10\<close>.
\<close>

theorem commit_normalized_counterexample:
  "valid_edge (example_bp (1/2)) 0 0
   \<and> normalized_within False 0 (get_message (example_bp (1/2)) 0 0)
   \<and> normalized_within False 0 (get_newMessage (example_bp (1/2)) 0 0)
   \<and> totalSum False (get_message (updateMessage 0 0 (example_bp (1/2))) 0 0) = 4/5
   \<and> \<not> normalized_within False (1/10) (get_message (updateMessage 0 0 (example_bp (1/2))) 0 0)"
proof -
  have "normalized_within False 0 (get_message (example_bp (1/2)) 0 0)"
    and "normalized_within False 0 (get_newMessage (example_bp (1/2)) 0 0)"
    by (simp_all add: example_bp_def get_message_def get_newMessage_def normalized_within_def
        totalSum_def)
  then show ?thesis
    by (simp add: example_damped_message valid_edge_example normalized_within_def totalSum_def)
qed

text \<open>
  Claim C2, amended. After a commit with damping 0 the committed message is the pending
  one, so it is normalized within the tolerance within which the pending message is,
  whatever the scheduling mode. A commit with damping \<open>0 < d < 1\<close> does not
  renormalize: the mass of the committed message (the sum of its entries, or of their
  exponentials in the log domain) is at most \<open>d\<close> times the mass of the old message
  plus \<open>1 - d\<close> times the mass of the pending one, hence at most 1 when both are
  normalized.
\<close>

theorem commit_normalization:
  assumes "valid_edge bp i I"
  shows "(damping (props bp) = 0
            \<and> normalized_within (logdomain (props bp)) eps (get_newMessage bp i I)
          \<longrightarrow> normalized_within (logdomain (props bp)) eps
                (get_message (updateMessage i I bp) i I))
       \<and> (0 < damping (props bp) \<and> damping (props bp) < 1
            \<and> length (get_message bp i I) = length (get_newMessage bp i I)
            \<and> (\<not> logdomain (props bp) \<longrightarrow>
                  (\<forall>x \<in> set (get_message bp i I). 0 \<le> x)
                  \<and> (\<forall>y \<in> set (get_newMessage bp i I). 0 \<le> y))
          \<longrightarrow> totalSum (logdomain (props bp)) (get_message (updateMessage i I bp) i I)
                \<le> damping (props bp) * totalSum (logdomain (props bp)) (get_message bp i I)
                  + (1 - damping (props bp))
                    * totalSum (logdomain (props bp)) (get_newMessage bp i I))"
proof (intro conjI impI)
  assume "damping (props bp) = 0
    \<and> normalized_within (logdomain (props bp)) eps (get_newMessage bp i I)"
  then show "normalized_within (logdomain (props bp)) eps
      (get_message (updateMessage i I bp) i I)"
    using assms by (simp add: updateMessage_def get_set_message)
next
  assume h: "0 < damping (props bp) \<and> damping (props bp) < 1
            \<and> length (get_message bp i I) = length (get_newMessage bp i I)
            \<and> (\<not> logdomain (props bp) \<longrightarrow>
                  (\<forall>x \<in> set (get_message bp i I). 0 \<le> x)
                  \<and> (\<forall>y \<in> set (get_newMessage bp i I). 0 \<le> y))"
  then have d: "0 < damping (props bp)" "damping (props bp) < 1" by simp_all
  have m: "get_message (updateMessage i I bp) i I =
      prob_mul (logdomain (props bp))
        (prob_pow (logdomain (props bp)) (get_message bp i I) (damping (props bp)))
        (prob_pow (logdomain (props bp)) (get_newMessage bp i I) (1 - damping (props bp)))"
    using assms d by (simp add: updateMessage_def get_set_message)
  show "totalSum (logdomain (props bp)) (get_message (updateMessage i I bp) i I)
          \<le> damping (props bp) * totalSum (logdomain (props bp)) (get_message bp i I)
            + (1 - damping (props bp))
              * totalSum (logdomain (props bp)) (get_newMessage bp i I)"
  proof (cases "logdomain (props bp)")
    case True
    then show ?thesis using h damped_sum_log [OF d] by (simp add: m)
  next
    case False
    then show ?thesis using h damped_sum_linear [OF d] by (simp add: m)
  qed
qed

theorem commit_normalization_witness:
  "valid_edge (example_bp 0) 0 0 \<and> valid_edge (example_bp (1/2)) 0 0
   \<and> normalized_within False 0 (get_message (updateMessage 0 0 (example_bp 0)) 0 0)
   \<and> totalSum False (get_message (updateMessage 0 0 (example_bp (1/2))) 0 0) \<le> 1"
proof -
  have "normalized_within False 0 (get_message (updateMessage 0 0 (example_bp 0)) 0 0)"
    using commit_normalization [OF valid_edge_example, of 0 0]
    by (simp add: example_bp_def get_newMessage_def normalized_within_def totalSum_def)
  moreover
  have "totalSum False (get_message (updateMessage 0 0 (example_bp (1/2))) 0 0) \<le> 1"
    using commit_normalization [OF valid_edge_example, of "1/2" 0]
    by (simp add: example_bp_def get_newMessage_def get_message_def totalSum_def)
  ultimately show ?thesis using valid_edge_example by simp
qed


section \<open>Inserting a cluster\<close>

lemma find_pos_le: "find_pos P xs \<le> length xs"
  by (induction xs) auto

lemma find_pos_end: "(find_pos P xs = length xs) = (\<not> list_ex P xs)"
  using find_pos_le [of P] by (induction xs) (auto simp: le_Suc_eq)

lemma varset_eq_refl: "varset_eq cl cl"
  by (simp add: varset_eq_def list_all2_same var_eq_refl)

lemma clusters_insert_new:
  "\<not> list_ex (\<lambda>c. varset_eq c cl) (clusters g) \<Longrightarrow>
   clusters (insert_cluster cl g) = clusters g @ [cl]"
  by (simp add: insert_cluster_def find_pos_end split: prod.splits)

lemma insert_cluster_present:
  "list_ex (\<lambda>c. varset_eq c cl) (clusters g) \<Longrightarrow> insert_cluster cl g = g"
  by (simp add: insert_cluster_def find_pos_end)

lemma empty_and_singleton_value:
  "empty_and_singleton =
     \<lparr>G = \<lparr>nb1 = [[1]], nb2 = [[], [0]]\<rparr>, vars = [var_x0], clusters = [[], [var_x0]]\<rparr>"
  by (simp add: empty_and_singleton_def insert_cluster_def empty_ClusterGraph_def varset_eq_def
      addNode2_def addNode1_def nrNodes2_def)

text \<open>
  Claim C10. When a cluster equal to \<open>cl\<close> (in the sense of \<^verbatim>\<open>VarSet::operator==\<close>, which
  \<^verbatim>\<open>find\<close> uses) is among the clusters of \<open>g\<close>, \<open>insert\<close> returns \<open>g\<close> as it is: the
  same graph, variables and clusters. Hence inserting a cluster twice is inserting it
  once.
\<close>

theorem insert_cluster_idempotent:
  "(list_ex (\<lambda>c. varset_eq c cl) (clusters g) \<longrightarrow> insert_cluster cl g = g)
   \<and> insert_cluster cl (insert_cluster cl g) = insert_cluster cl g"
proof (intro conjI impI)
  assume "list_ex (\<lambda>c. varset_eq c cl) (clusters g)"
  then show "insert_cluster cl g = g" by (rule insert_cluster_present)
next
  show "insert_cluster cl (insert_cluster cl g) = insert_cluster cl g"
  proof (cases "list_ex (\<lambda>c. varset_eq c cl) (clusters g)")
    case True
    then show ?thesis by (simp add: insert_cluster_present)
  next
    case False
    then have "list_ex (\<lambda>c. varset_eq c cl) (clusters (insert_cluster cl g))"
      by (simp add: clusters_insert_new varset_eq_refl)
    then show ?thesis by (rule insert_cluster_present)
  qed
qed

theorem insert_cluster_idempotent_witness:
  "list_ex (\<lambda>c. varset_eq c [var_x0]) (clusters empty_and_singleton)
   \<and> insert_cluster [var_x0] empty_and_singleton = empty_and_singleton
   \<and> insert_cluster [var_x0] (insert_cluster [var_x0] empty_ClusterGraph)
       = insert_cluster [var_x0] empty_ClusterGraph"
proof -
  have h: "list_ex (\<lambda>c. varset_eq c [var_x0]) (clusters empty_and_singleton)"
    by (simp add: empty_and_singleton_value varset_eq_def var_eq_def)
  show ?thesis
    using insert_cluster_idempotent [of "[var_x0]" empty_and_singleton]
      insert_cluster_idempotent [of "[var_x0]" empty_ClusterGraph] h
    by simp
qed


section \<open>Erasing the clusters that are not maximal\<close>

text \<open>
  On a cluster graph that satisfies the class invariant, \<open>isMaximal\<close> decides maximality
  for every cluster that has a variable, and answers \<open>True\<close> for a cluster without
  variables.
\<close>

lemma varset_subset_iff:
  "varset_subset a b = (\<forall>v \<in> set a. \<exists>w \<in> set b. var_eq w v)"
  by (simp add: varset_subset_def list_all_iff list_ex_iff)

lemma isMaximal_iff:
  "isMaximal g I = (\<forall>i \<in> set (nb2 (G g) ! I). \<forall>J \<in> set (nb1 (G g) ! i).
      J = I \<or> \<not> varset_subset (clusters g ! I) (clusters g ! J))"
  by (auto simp: isMaximal_def list_ex_iff)

lemma isMaximal_empty:
  assumes "wf_ClusterGraph g" "I < length (clusters g)" "clusters g ! I = []"
  shows "isMaximal g I"
proof -
  have "set (nb2 (G g) ! I) = {}"
    using assms by (auto simp: wf_ClusterGraph_def)
  then show ?thesis by (simp add: isMaximal_iff)
qed

lemma isMaximal_nonempty:
  assumes wf: "wf_ClusterGraph g" and I: "I < length (clusters g)"
    and ne: "clusters g ! I \<noteq> []"
  shows "isMaximal g I = maximal_in (clusters g) I"
proof
  assume m: "isMaximal g I"
  show "maximal_in (clusters g) I"
    unfolding maximal_in_def
  proof (intro allI impI notI)
    fix J assume J: "J < length (clusters g)" "J \<noteq> I"
      and sub: "varset_subset (clusters g ! I) (clusters g ! J)"
    obtain v where v: "v \<in> set (clusters g ! I)" using ne by (cases "clusters g ! I") auto
    obtain i where i: "i < length (vars g)" "var_eq (vars g ! i) v"
      using wf I v unfolding wf_ClusterGraph_def by blast
    have iI: "i \<in> set (nb2 (G g) ! I)"
      using wf I i v unfolding wf_ClusterGraph_def by blast
    obtain w where w: "w \<in> set (clusters g ! J)" "var_eq w v"
      using sub v by (auto simp: varset_subset_iff)
    have "var_eq (vars g ! i) w" using i(2) w(2) by (simp add: var_eq_def)
    then have "i \<in> set (nb2 (G g) ! J)"
      using wf J(1) i(1) w(1) unfolding wf_ClusterGraph_def by blast
    then have "J \<in> set (nb1 (G g) ! i)"
      using wf J(1) i(1) unfolding wf_ClusterGraph_def by blast
    then show False using m iI J(2) sub by (auto simp: isMaximal_iff)
  qed
next
  assume m: "maximal_in (clusters g) I"
  show "isMaximal g I"
    unfolding isMaximal_iff
  proof (intro ballI)
    fix i J assume "i \<in> set (nb2 (G g) ! I)" "J \<in> set (nb1 (G g) ! i)"
    then have "J < length (clusters g)"
      using wf I unfolding wf_ClusterGraph_def by blast
    then show "J = I \<or> \<not> varset_subset (clusters g ! I) (clusters g ! J)"
      using m by (auto simp: maximal_in_def)
  qed
qed

lemma maximal_in_isMaximal:
  assumes "wf_ClusterGraph g" "I < length (clusters g)" "maximal_in (clusters g) I"
  shows "isMaximal g I"
  using assms isMaximal_empty isMaximal_nonempty by (cases "clusters g ! I = []") auto

lemma length_erase_at: "n < length xs \<Longrightarrow> length (erase_at n xs) = length xs - 1"
  by (simp add: erase_at_def)

lemma nth_erase_at:
  "n < length xs \<Longrightarrow> k < length xs - 1 \<Longrightarrow>
   erase_at n xs ! k = xs ! (if k < n then k else Suc k)"
  by (auto simp: erase_at_def nth_append min_def)

lemma erase_cluster_simps:
  "clusters (erase_cluster I g) = erase_at I (clusters g)"
  "vars (erase_cluster I g) = vars g"
  "nb2 (G (erase_cluster I g)) = erase_at I (nb2 (G g))"
  "nb1 (G (erase_cluster I g)) =
     map (\<lambda>ns. map (\<lambda>m. if m > I then m - 1 else m) (filter (\<lambda>m. m \<noteq> I) ns)) (nb1 (G g))"
  by (simp_all add: erase_cluster_def eraseNode2_def)

lemma wf_erase_cluster:
  assumes wf: "wf_ClusterGraph g" and I: "I < length (clusters g)"
  shows "wf_ClusterGraph (erase_cluster I g)"
proof -
  let ?o = "\<lambda>K. if K < I then K else Suc K"
  have l2: "length (nb2 (G g)) = length (clusters g)"
    and l1: "length (nb1 (G g)) = length (vars g)"
    using wf by (simp_all add: wf_ClusterGraph_def)
  have w3: "\<And>K i. K < length (clusters g) \<Longrightarrow> i \<in> set (nb2 (G g) ! K) \<longleftrightarrow>
            i < length (vars g) \<and> (\<exists>v \<in> set (clusters g ! K). var_eq (vars g ! i) v)"
    using wf unfolding wf_ClusterGraph_def by blast
  have w4: "\<And>i J. i < length (vars g) \<Longrightarrow> J \<in> set (nb1 (G g) ! i) \<longleftrightarrow>
            J < length (clusters g) \<and> i \<in> set (nb2 (G g) ! J)"
    using wf unfolding wf_ClusterGraph_def by blast
  have w5: "\<And>K v. K < length (clusters g) \<Longrightarrow> v \<in> set (clusters g ! K) \<Longrightarrow>
            \<exists>i < length (vars g). var_eq (vars g ! i) v"
    using wf unfolding wf_ClusterGraph_def by blast
  have o: "?o K < length (clusters g)" if "K < length (clusters g) - 1" for K
    using that by auto
  have c: "clusters (erase_cluster I g) ! K = clusters g ! ?o K"
    if "K < length (clusters g) - 1" for K
    using that I by (simp add: erase_cluster_simps nth_erase_at)
  have n2: "nb2 (G (erase_cluster I g)) ! K = nb2 (G g) ! ?o K"
    if "K < length (clusters g) - 1" for K
    using that I l2 by (simp add: erase_cluster_simps nth_erase_at)
  have n1: "J' \<in> set (nb1 (G (erase_cluster I g)) ! i) \<longleftrightarrow>
      J' < length (clusters g) - 1 \<and> i \<in> set (nb2 (G g) ! ?o J')"
    if i: "i < length (vars g)" for i J'
  proof
    assume "J' \<in> set (nb1 (G (erase_cluster I g)) ! i)"
    then obtain J where J: "J \<in> set (nb1 (G g) ! i)" "J \<noteq> I"
      "J' = (if J > I then J - 1 else J)"
      using i l1 by (auto simp: erase_cluster_simps)
    then have "J < length (clusters g)" "i \<in> set (nb2 (G g) ! J)"
      using w4 [OF i] by auto
    moreover have "?o J' = J" using J by auto
    moreover have "J' < length (clusters g) - 1"
      using J I \<open>J < length (clusters g)\<close> by auto
    ultimately show "J' < length (clusters g) - 1 \<and> i \<in> set (nb2 (G g) ! ?o J')"
      by simp
  next
    assume a: "J' < length (clusters g) - 1 \<and> i \<in> set (nb2 (G g) ! ?o J')"
    then have "?o J' \<in> set (nb1 (G g) ! i)"
      using w4 [OF i, of "?o J'"] o by auto
    moreover have "?o J' \<noteq> I" by auto
    moreover have "(if ?o J' > I then ?o J' - 1 else ?o J') = J'" by auto
    ultimately show "J' \<in> set (nb1 (G (erase_cluster I g)) ! i)"
      using i l1 by (force simp: erase_cluster_simps)
  qed
  show ?thesis
    unfolding wf_ClusterGraph_def
  proof (intro conjI allI impI ballI)
    show "length (nb2 (G (erase_cluster I g))) = length (clusters (erase_cluster I g))"
      using I l2 by (simp add: erase_cluster_simps length_erase_at)
    show "length (nb1 (G (erase_cluster I g))) = length (vars (erase_cluster I g))"
      using l1 by (simp add: erase_cluster_simps)
  next
    fix K i assume "K < length (clusters (erase_cluster I g))"
    then have K: "K < length (clusters g) - 1"
      using I by (simp add: erase_cluster_simps length_erase_at)
    show "i \<in> set (nb2 (G (erase_cluster I g)) ! K) \<longleftrightarrow>
        i < length (vars (erase_cluster I g))
        \<and> (\<exists>v \<in> set (clusters (erase_cluster I g) ! K). var_eq (vars (erase_cluster I g) ! i) v)"
      unfolding c [OF K] n2 [OF K] erase_cluster_simps(2)
      using w3 [OF o [OF K]] by blast
  next
    fix i J assume "i < length (vars (erase_cluster I g))"
    then have i: "i < length (vars g)" by (simp add: erase_cluster_simps)
    show "J \<in> set (nb1 (G (erase_cluster I g)) ! i) \<longleftrightarrow>
        J < length (clusters (erase_cluster I g)) \<and> i \<in> set (nb2 (G (erase_cluster I g)) ! J)"
      using n1 [OF i, of J] I n2 [of J]
      by (auto simp: erase_cluster_simps(1) length_erase_at)
  next
    fix K v assume "K < length (clusters (erase_cluster I g))"
      and v: "v \<in> set (clusters (erase_cluster I g) ! K)"
    then have K: "K < length (clusters g) - 1"
      using I by (simp add: erase_cluster_simps length_erase_at)
    show "\<exists>i < length (vars (erase_cluster I g)). var_eq (vars (erase_cluster I g) ! i) v"
      using w5 [OF o [OF K]] v unfolding c [OF K] erase_cluster_simps(2) by blast
  next
    show "distinct (map label (vars (erase_cluster I g)))"
      using wf by (simp add: erase_cluster_simps wf_ClusterGraph_def)
  qed
qed


lemma maximal_in_erase:
  assumes I: "I < length cs" and K: "K < length cs" "K \<noteq> I" and m: "maximal_in cs K"
  shows "maximal_in (erase_at I cs) (if K < I then K else K - 1)"
  unfolding maximal_in_def
proof (intro allI impI)
  let ?K = "if K < I then K else K - 1"
  fix J assume J: "J < length (erase_at I cs)" "J \<noteq> ?K"
  let ?o = "if J < I then J else Suc J"
  have J1: "J < length cs - 1" using J(1) I by (simp add: length_erase_at)
  have K1: "?K < length cs - 1" using K I by auto
  have "erase_at I cs ! J = cs ! ?o"
    using I J1 by (simp add: nth_erase_at)
  moreover have "erase_at I cs ! ?K = cs ! K"
    using I K K1 by (auto simp: nth_erase_at)
  moreover have "?o < length cs" "?o \<noteq> K" using J1 J(2) K by auto
  ultimately show "\<not> varset_subset (erase_at I cs ! ?K) (erase_at I cs ! J)"
    using m by (simp add: maximal_in_def)
qed

lemma isMaximal_erase_cluster:
  assumes wf: "wf_ClusterGraph g" and I: "I < length (clusters g)" and K: "K < I"
    and m: "isMaximal g K"
  shows "isMaximal (erase_cluster I g) K"
proof -
  have wf1: "wf_ClusterGraph (erase_cluster I g)" by (rule wf_erase_cluster [OF wf I])
  have K1: "K < length (clusters (erase_cluster I g))"
    using I K by (simp add: erase_cluster_simps length_erase_at)
  have c: "clusters (erase_cluster I g) ! K = clusters g ! K"
    using I K by (simp add: erase_cluster_simps nth_erase_at)
  show ?thesis
  proof (cases "clusters g ! K = []")
    case True
    then show ?thesis using isMaximal_empty [OF wf1 K1] c by simp
  next
    case False
    then have "maximal_in (clusters g) K"
      using isMaximal_nonempty [OF wf, of K] I K m by simp
    then have "maximal_in (erase_at I (clusters g)) K"
      using maximal_in_erase [OF I, of K] I K by simp
    then show ?thesis
      using maximal_in_isMaximal [OF wf1 K1] by (simp add: erase_cluster_simps)
  qed
qed

lemma eraseNonMaximal_from_spec:
  assumes "wf_ClusterGraph g"
    and "\<forall>K < I. K < length (clusters g) \<longrightarrow> isMaximal g K"
  shows "wf_ClusterGraph (eraseNonMaximal_from I g)
    \<and> (\<forall>K < length (clusters (eraseNonMaximal_from I g)). isMaximal (eraseNonMaximal_from I g) K)
    \<and> (\<forall>K < length (clusters g). maximal_in (clusters g) K \<longrightarrow>
          clusters g ! K \<in> set (clusters (eraseNonMaximal_from I g)))"
  using assms
proof (induction I g rule: eraseNonMaximal_from.induct)
  case (1 I g)
  note wf = "1.prems"(1) and inv = "1.prems"(2)
  have n2: "nrNodes2 (G g) = length (clusters g)"
    using wf by (simp add: nrNodes2_def wf_ClusterGraph_def)
  show ?case
  proof (cases "I < length (clusters g)")
    case False
    then have "eraseNonMaximal_from I g = g"
      using n2 by (subst eraseNonMaximal_from.simps) simp
    then show ?thesis using wf inv False by auto
  next
    case I: True
    show ?thesis
    proof (cases "isMaximal g I")
      case True
      have e: "eraseNonMaximal_from I g = eraseNonMaximal_from (Suc I) g"
        using I n2 True by (subst eraseNonMaximal_from.simps) simp
      have "\<forall>K < Suc I. K < length (clusters g) \<longrightarrow> isMaximal g K"
        using inv True by (auto simp: less_Suc_eq)
      then show ?thesis
        using "1.IH"(2) [OF _ _ wf] I n2 True e by simp
    next
      case False
      have g1: "g\<lparr>clusters := erase_at I (clusters g), G := eraseNode2 I (G g)\<rparr> = erase_cluster I g"
        by (simp add: erase_cluster_def)
      have e: "eraseNonMaximal_from I g = eraseNonMaximal_from I (erase_cluster I g)"
        using I n2 False by (subst eraseNonMaximal_from.simps) (simp add: g1)
      have wf1: "wf_ClusterGraph (erase_cluster I g)" by (rule wf_erase_cluster [OF wf I])
      have inv1: "\<forall>K < I. K < length (clusters (erase_cluster I g)) \<longrightarrow>
          isMaximal (erase_cluster I g) K"
        using isMaximal_erase_cluster [OF wf I] inv I by auto
      note ih = "1.IH"(1) [unfolded g1, OF _ _ wf1 inv1, folded e]
      have ih': "wf_ClusterGraph (eraseNonMaximal_from I g)
        \<and> (\<forall>K < length (clusters (eraseNonMaximal_from I g)). isMaximal (eraseNonMaximal_from I g) K)
        \<and> (\<forall>K < length (clusters (erase_cluster I g)). maximal_in (clusters (erase_cluster I g)) K \<longrightarrow>
              clusters (erase_cluster I g) ! K \<in> set (clusters (eraseNonMaximal_from I g)))"
        using ih I n2 False by simp
      have "clusters g ! K \<in> set (clusters (eraseNonMaximal_from I g))"
        if K: "K < length (clusters g)" and m: "maximal_in (clusters g) K" for K
      proof -
        have "K \<noteq> I" using maximal_in_isMaximal [OF wf K m] False by auto
        let ?K = "if K < I then K else K - 1"
        have "maximal_in (clusters (erase_cluster I g)) ?K"
          using maximal_in_erase [OF I K \<open>K \<noteq> I\<close> m] by (simp add: erase_cluster_simps)
        moreover have "?K < length (clusters (erase_cluster I g))"
          using I K \<open>K \<noteq> I\<close> by (auto simp: erase_cluster_simps length_erase_at)
        moreover have "clusters (erase_cluster I g) ! ?K = clusters g ! K"
          using I K \<open>K \<noteq> I\<close> by (auto simp: erase_cluster_simps nth_erase_at)
        ultimately show ?thesis using ih' by metis
      qed
      then show ?thesis using ih' by simp
    qed
  qed
qed

text \<open>
  What \<open>eraseNonMaximal\<close> achieves on a cluster graph that satisfies the invariant: the
  invariant still holds; every remaining cluster that has a variable is maximal among
  the remaining clusters; and every cluster that was maximal is still there.
\<close>

theorem eraseNonMaximal_nonempty_clusters:
  assumes "wf_ClusterGraph g"
  shows "wf_ClusterGraph (eraseNonMaximal g)
    \<and> (\<forall>K < length (clusters (eraseNonMaximal g)).
          clusters (eraseNonMaximal g) ! K \<noteq> [] \<longrightarrow> maximal_in (clusters (eraseNonMaximal g)) K)
    \<and> (\<forall>K < length (clusters g). maximal_in (clusters g) K \<longrightarrow>
          clusters g ! K \<in> set (clusters (eraseNonMaximal g)))"
proof -
  note s = eraseNonMaximal_from_spec [OF assms, of 0, folded eraseNonMaximal_def, simplified]
  then show ?thesis
    using isMaximal_nonempty [of "eraseNonMaximal g"] by auto
qed

text \<open>
  The empty cluster graph satisfies the invariant and \<open>insert\<close> preserves it, so every
  cluster graph built by insertions satisfies it.
\<close>

lemma find_pos_found:
  "list_ex P xs \<Longrightarrow> find_pos P xs < length xs \<and> P (xs ! find_pos P xs)"
  by (induction xs) auto

lemma find_pos_append_found:
  "list_ex P xs \<Longrightarrow> find_pos P (xs @ ys) = find_pos P xs"
  by (induction xs) auto

lemma find_pos_append_new:
  "\<not> list_ex P xs \<Longrightarrow> find_pos P (xs @ ys) = length xs + find_pos P ys"
  by (induction xs) auto

lemma find_pos_unique:
  assumes "distinct (map label vs)" "i < length vs" "var_eq (vs ! i) n"
  shows "find_pos (\<lambda>v. var_eq v n) vs = i"
  using assms
proof (induction vs arbitrary: i)
  case Nil
  then show ?case by simp
next
  case (Cons v vs)
  show ?case
  proof (cases i)
    case 0
    then show ?thesis using Cons.prems by simp
  next
    case (Suc j)
    then have j: "j < length vs" "var_eq (vs ! j) n" using Cons.prems by simp_all
    then have "label (vs ! j) \<in> set (map label vs)" by simp
    then have "label v \<noteq> label n"
      using Cons.prems(1) j(2) by (auto simp: var_eq_def)
    then show ?thesis
      using Cons.IH [OF _ j] Cons.prems(1) Suc by (simp add: var_eq_def)
  qed
qed

lemma insert_vars_spec:
  assumes "insert_vars ns (B, vs, nbs) = (B', vs', nbs')" and "distinct (map label vs)"
  shows "\<exists>news. vs' = vs @ news \<and> distinct (map label vs')
      \<and> nb2 B' = nb2 B \<and> nb1 B' = nb1 B @ replicate (length news) []
      \<and> nbs' = nbs @ map (\<lambda>n. find_pos (\<lambda>v. var_eq v n) vs') ns
      \<and> (\<forall>n \<in> set ns. list_ex (\<lambda>v. var_eq v n) vs')
      \<and> (\<forall>w \<in> set news. \<forall>v \<in> set vs. \<not> var_eq v w)"
  using assms
proof (induction ns arbitrary: B vs nbs)
  case Nil
  then show ?case by simp
next
  case (Cons n ns)
  let ?P = "\<lambda>v. var_eq v n"
  show ?case
  proof (cases "list_ex ?P vs")
    case True
    then have it: "find_pos ?P vs \<noteq> length vs" by (simp add: find_pos_end)
    then have r: "insert_vars ns (B, vs, nbs @ [find_pos ?P vs]) = (B', vs', nbs')"
      using Cons.prems(1) by (simp add: Let_def)
    from Cons.IH [OF r Cons.prems(2)] obtain news where
      n: "vs' = vs @ news" "distinct (map label vs')" "nb2 B' = nb2 B"
        "nb1 B' = nb1 B @ replicate (length news) []"
        "nbs' = (nbs @ [find_pos ?P vs]) @ map (\<lambda>n. find_pos (\<lambda>v. var_eq v n) vs') ns"
        "\<forall>n \<in> set ns. list_ex (\<lambda>v. var_eq v n) vs'"
        "\<forall>w \<in> set news. \<forall>v \<in> set vs. \<not> var_eq v w"
      by blast
    have "find_pos ?P vs' = find_pos ?P vs"
      using True n(1) by (simp add: find_pos_append_found)
    moreover have "list_ex ?P vs'" using True n(1) by (auto simp: list_ex_iff)
    ultimately show ?thesis using n by auto
  next
    case False
    then have it: "find_pos ?P vs = length vs" by (simp add: find_pos_end)
    then have r: "insert_vars ns (addNode1 B, vs @ [n], nbs @ [length vs]) = (B', vs', nbs')"
      using Cons.prems(1) by (simp add: Let_def)
    have d: "distinct (map label (vs @ [n]))"
      using Cons.prems(2) False by (auto simp: list_ex_iff var_eq_def)
    from Cons.IH [OF r d] obtain news where
      n: "vs' = (vs @ [n]) @ news" "distinct (map label vs')" "nb2 B' = nb2 (addNode1 B)"
        "nb1 B' = nb1 (addNode1 B) @ replicate (length news) []"
        "nbs' = (nbs @ [length vs]) @ map (\<lambda>n. find_pos (\<lambda>v. var_eq v n) vs') ns"
        "\<forall>n \<in> set ns. list_ex (\<lambda>v. var_eq v n) vs'"
        "\<forall>w \<in> set news. \<forall>v \<in> set (vs @ [n]). \<not> var_eq v w"
      by blast
    have f: "find_pos ?P vs' = length vs"
      using False n(1) by (simp add: find_pos_append_new var_eq_refl)
    have l: "list_ex ?P vs'" using n(1) by (auto simp: list_ex_iff var_eq_refl)
    have "\<forall>w \<in> set (n # news). \<forall>v \<in> set vs. \<not> var_eq v w"
      using n(7) False by (auto simp: list_ex_iff)
    moreover have "nb1 B' = nb1 B @ replicate (length (n # news)) []"
      using n(4) by (simp add: addNode1_def replicate_append_same)
    moreover have "vs' = vs @ (n # news)" using n(1) by simp
    moreover have "nb2 B' = nb2 B" using n(3) by (simp add: addNode1_def)
    ultimately show ?thesis
      using n(2,5,6) f l by (intro exI [of _ "n # news"]) simp
  qed
qed

lemma length_add_edges: "length (add_edges n2 nbs ns) = length ns"
  by (induction nbs arbitrary: ns) auto

lemma set_add_edges:
  "i < length ns \<Longrightarrow>
   set (add_edges n2 nbs ns ! i) = set (ns ! i) \<union> (if i \<in> set nbs then {n2} else {})"
proof (induction nbs arbitrary: ns)
  case Nil
  then show ?case by simp
next
  case (Cons n1 nbs)
  let ?ns = "ns[n1 := ns ! n1 @ [n2]]"
  have l: "i < length ?ns" using Cons.prems by simp
  have s: "set (?ns ! i) = set (ns ! i) \<union> (if i = n1 then {n2} else {})"
    using Cons.prems by (cases "i = n1") simp_all
  have "set (add_edges n2 (n1 # nbs) ns ! i) = set (add_edges n2 nbs ?ns ! i)"
    by simp
  also have "\<dots> = set (?ns ! i) \<union> (if i \<in> set nbs then {n2} else {})"
    by (rule Cons.IH [OF l])
  also have "\<dots> = set (ns ! i) \<union> (if i \<in> set (n1 # nbs) then {n2} else {})"
    unfolding s by (cases "i = n1"; cases "i \<in> set nbs") simp_all
  finally show ?case .
qed

lemma wf_empty_ClusterGraph: "wf_ClusterGraph empty_ClusterGraph"
  by (simp add: wf_ClusterGraph_def empty_ClusterGraph_def)

lemma wf_insert_cluster:
  assumes wf: "wf_ClusterGraph g"
  shows "wf_ClusterGraph (insert_cluster cl g)"
proof (cases "list_ex (\<lambda>c. varset_eq c cl) (clusters g)")
  case True
  then show ?thesis using wf by (simp add: insert_cluster_present)
next
  case False
  obtain B vs nbs where iv: "insert_vars cl (G g, vars g, []) = (B, vs, nbs)"
    by (cases "insert_vars cl (G g, vars g, [])") auto
  have d: "distinct (map label (vars g))" using wf by (simp add: wf_ClusterGraph_def)
  note wfg = wf
  from insert_vars_spec [OF iv d] obtain news where
    n: "vs = vars g @ news" "distinct (map label vs)" "nb2 B = nb2 (G g)"
      "nb1 B = nb1 (G g) @ replicate (length news) []"
      "nbs = map (\<lambda>n. find_pos (\<lambda>v. var_eq v n) vs) cl"
      "\<forall>n \<in> set cl. list_ex (\<lambda>v. var_eq v n) vs"
      "\<forall>w \<in> set news. \<forall>v \<in> set (vars g). \<not> var_eq v w"
    by auto
  let ?g = "insert_cluster cl g"
  have l2: "length (nb2 (G g)) = length (clusters g)"
    and l1: "length (nb1 (G g)) = length (vars g)"
    using wfg by (simp_all add: wf_ClusterGraph_def)
  have w3: "\<And>K i. K < length (clusters g) \<Longrightarrow> i \<in> set (nb2 (G g) ! K) \<longleftrightarrow>
            i < length (vars g) \<and> (\<exists>v \<in> set (clusters g ! K). var_eq (vars g ! i) v)"
    using wfg unfolding wf_ClusterGraph_def by blast
  have w4: "\<And>i J. i < length (vars g) \<Longrightarrow> J \<in> set (nb1 (G g) ! i) \<longleftrightarrow>
            J < length (clusters g) \<and> i \<in> set (nb2 (G g) ! J)"
    using wfg unfolding wf_ClusterGraph_def by blast
  have w5: "\<And>K v. K < length (clusters g) \<Longrightarrow> v \<in> set (clusters g ! K) \<Longrightarrow>
            \<exists>i < length (vars g). var_eq (vars g ! i) v"
    using wfg unfolding wf_ClusterGraph_def by blast
  have gc: "clusters ?g = clusters g @ [cl]" and gv: "vars ?g = vs"
    and g2: "nb2 (G ?g) = nb2 (G g) @ [nbs]"
    and g1: "nb1 (G ?g) = add_edges (length (clusters g)) nbs (nb1 (G g) @ replicate (length news) [])"
    using False iv n(3,4) l2 by (simp_all add: insert_cluster_def find_pos_end addNode2_def nrNodes2_def)
  have lv: "length vs = length (vars g) + length news" using n(1) by simp
  have last2: "(nb2 (G g) @ [nbs]) ! length (clusters g) = nbs"
    by (simp add: l2 [symmetric])
  \<comment> \<open>the neighbours of the new cluster\<close>
  have nbs: "i \<in> set nbs \<longleftrightarrow> i < length vs \<and> (\<exists>v \<in> set cl. var_eq (vs ! i) v)" for i
  proof
    assume "i \<in> set nbs"
    then obtain v where v: "v \<in> set cl" "i = find_pos (\<lambda>w. var_eq w v) vs"
      using n(5) by auto
    then show "i < length vs \<and> (\<exists>v \<in> set cl. var_eq (vs ! i) v)"
      using find_pos_found [of "\<lambda>w. var_eq w v" vs] n(6) by auto
  next
    assume "i < length vs \<and> (\<exists>v \<in> set cl. var_eq (vs ! i) v)"
    then obtain v where v: "i < length vs" "v \<in> set cl" "var_eq (vs ! i) v" by auto
    then have "find_pos (\<lambda>w. var_eq w v) vs = i"
      using find_pos_unique [OF n(2)] by simp
    then show "i \<in> set nbs" using v(2) n(5) by force
  qed
  \<comment> \<open>a new variable belongs to no old cluster\<close>
  have new_var: "\<not> var_eq (vs ! i) v"
    if h: "length (vars g) \<le> i" "i < length vs" "K < length (clusters g)"
      "v \<in> set (clusters g ! K)"
    for i K v
  proof
    assume e: "var_eq (vs ! i) v"
    obtain j where j: "j < length (vars g)" "var_eq (vars g ! j) v"
      using w5 [OF h(3,4)] by auto
    have "vs ! i \<in> set news"
      using h(1,2) n(1) by (auto simp: nth_append)
    moreover have "vars g ! j \<in> set (vars g)" using j(1) by simp
    moreover have "var_eq (vars g ! j) (vs ! i)" using e j(2) by (simp add: var_eq_def)
    ultimately show False using n(7) by blast
  qed
  have old_var: "vs ! i = vars g ! i" if h: "i < length (vars g)" for i
    using h n(1) by (simp add: nth_append)
  have c3: "i \<in> set (nb2 (G ?g) ! K) \<longleftrightarrow>
      i < length (vars ?g) \<and> (\<exists>v \<in> set (clusters ?g ! K). var_eq (vars ?g ! i) v)"
    if K: "K < length (clusters ?g)" for K i
  proof (cases "K < length (clusters g)")
    case True
    have "i \<in> set (nb2 (G g) ! K) \<longleftrightarrow> i < length vs \<and> (\<exists>v \<in> set (clusters g ! K). var_eq (vs ! i) v)"
    proof (cases "i < length (vars g)")
      case i: True
      then show ?thesis using w3 [OF True, of i] lv by (simp add: old_var)
    next
      case i: False
      then have "i \<notin> set (nb2 (G g) ! K)" using w3 [OF True, of i] by simp
      moreover have "\<not> (i < length vs \<and> (\<exists>v \<in> set (clusters g ! K). var_eq (vs ! i) v))"
        using new_var [of i K] i True by auto
      ultimately show ?thesis by simp
    qed
    then show ?thesis using True l2 by (simp add: gc gv g2 nth_append)
  next
    case False
    then have "K = length (clusters g)" using K by (simp add: gc)
    then show ?thesis using nbs [of i] by (simp add: gc gv g2 last2)
  qed
  have c4: "J \<in> set (nb1 (G ?g) ! i) \<longleftrightarrow>
      J < length (clusters ?g) \<and> i \<in> set (nb2 (G ?g) ! J)"
    if i: "i < length (vars ?g)" for i J
  proof -
    have il: "i < length (nb1 (G g) @ replicate (length news) [])"
      using i l1 lv by (simp add: gv)
    have s: "set (nb1 (G ?g) ! i) =
        set ((nb1 (G g) @ replicate (length news) []) ! i)
        \<union> (if i \<in> set nbs then {length (clusters g)} else {})"
      unfolding g1 by (rule set_add_edges [OF il])
    have old: "J \<in> set ((nb1 (G g) @ replicate (length news) []) ! i) \<longleftrightarrow>
        J < length (clusters g) \<and> i \<in> set (nb2 (G g) ! J)"
    proof (cases "i < length (vars g)")
      case True
      then show ?thesis using w4 [OF True, of J] l1 by (simp add: nth_append)
    next
      case False
      then have "(nb1 (G g) @ replicate (length news) []) ! i = []"
        using il l1 by (simp add: nth_append)
      moreover have "\<not> (J < length (clusters g) \<and> i \<in> set (nb2 (G g) ! J))"
        using w3 [of J i] False by auto
      ultimately show ?thesis by simp
    qed
    show ?thesis
    proof (cases "J < length (clusters g)")
      case True
      then show ?thesis using old l2 by (simp add: s gc g2 nth_append)
    next
      case False
      then show ?thesis using old by (auto simp: s gc g2 last2 less_Suc_eq)
    qed
  qed
  have c5: "\<exists>i < length (vars ?g). var_eq (vars ?g ! i) v"
    if K: "K < length (clusters ?g)" and v: "v \<in> set (clusters ?g ! K)" for K v
  proof (cases "K < length (clusters g)")
    case True
    then obtain j where "j < length (vars g)" "var_eq (vars g ! j) v"
      using w5 [OF True] v by (auto simp: gc nth_append)
    then show ?thesis using lv by (auto simp: gv old_var intro!: exI [of _ j])
  next
    case False
    then have "v \<in> set cl" using K v by (simp add: gc nth_append)
    then have "list_ex (\<lambda>w. var_eq w v) vs" using n(6) by simp
    then show ?thesis
      using find_pos_found [of "\<lambda>w. var_eq w v" vs] by (auto simp: gv)
  qed
  show ?thesis
    unfolding wf_ClusterGraph_def
    using c3 c4 c5 l1 l2 lv n(2)
    by (intro conjI allI impI ballI) (simp_all add: gc gv g2 g1 length_add_edges)
qed

lemma wf_inserted: "wf_ClusterGraph (fold insert_cluster cls empty_ClusterGraph)"
proof -
  have "wf_ClusterGraph g \<Longrightarrow> wf_ClusterGraph (fold insert_cluster cls g)" for g
    by (induction cls arbitrary: g) (simp_all add: wf_insert_cluster)
  then show ?thesis using wf_empty_ClusterGraph by blast
qed

lemma wf_empty_and_singleton: "wf_ClusterGraph empty_and_singleton"
  unfolding empty_and_singleton_def
  by (intro wf_insert_cluster wf_empty_ClusterGraph)

text \<open>
  Claim C9 at the cluster graph with the clusters \<open>{}\<close> and \<open>{x0}\<close>. The empty cluster
  has no neighbour, so the loops of \<open>isMaximal\<close> find nothing and it counts as maximal;
  \<open>eraseNonMaximal\<close> returns the graph as it is, and the empty cluster, at position 0,
  remains although it is a subset of the cluster at position 1.
\<close>

theorem eraseNonMaximal_empty_cluster:
  "clusters empty_and_singleton = [[], [var_x0]]
   \<and> isMaximal empty_and_singleton 0
   \<and> eraseNonMaximal empty_and_singleton = empty_and_singleton
   \<and> varset_subset (clusters (eraseNonMaximal empty_and_singleton) ! 0)
                    (clusters (eraseNonMaximal empty_and_singleton) ! 1)"
proof -
  have e: "eraseNonMaximal empty_and_singleton = empty_and_singleton"
    by code_simp
  have c: "clusters empty_and_singleton = [[], [var_x0]]"
    by (simp add: empty_and_singleton_value)
  have m: "isMaximal empty_and_singleton 0"
    by (simp add: empty_and_singleton_value isMaximal_def)
  show ?thesis
    using c m by (simp add: e varset_subset_def)
qed


section \<open>Configuration and construction\<close>

lemma setProperties_missing:
  "k \<in> set mandatory_keys \<Longrightarrow> opts k = None \<Longrightarrow> setProperties cv opts p = Inl NotSpecified"
  by (auto simp: setProperties_def list_all_iff hasKey_def)

lemma map_add_unknown:
  assumes "\<forall>k \<in> dom extra. k \<notin> set recognized_keys" and "k \<in> set recognized_keys"
  shows "(opts ++ extra) k = opts k"
  using assms by (auto simp: map_add_def split: option.splits)

lemma setProperties_unknown_keys:
  assumes "\<forall>k \<in> dom extra. k \<notin> set recognized_keys"
  shows "setProperties cv (opts ++ extra) p = setProperties cv opts p"
proof -
  have r: "(opts ++ extra) k = opts k" if "k \<in> set recognized_keys" for k
    using map_add_unknown [OF assms that] .
  have "(opts ++ extra) ''tol'' = opts ''tol''"
    "(opts ++ extra) ''maxiter'' = opts ''maxiter''"
    "(opts ++ extra) ''logdomain'' = opts ''logdomain''"
    "(opts ++ extra) ''updates'' = opts ''updates''"
    "(opts ++ extra) ''verbose'' = opts ''verbose''"
    "(opts ++ extra) ''damping'' = opts ''damping''"
    by (rule r, simp add: recognized_keys_def mandatory_keys_def)+
  then show ?thesis
    by (simp add: setProperties_def get_as_def hasKey_def mandatory_keys_def
        cong: sum.case_cong)
qed

lemma setProperties_full_options:
  "setProperties nat_conversions full_options initial_props =
     Inr \<lparr>verbose = 0, maxiter = 10, tol = 1, logdomain = False, damping = 0,
          updates = PARALL\<rparr>"
  by (simp add: setProperties_def full_options_def nat_conversions_def get_as_def
      hasKey_def mandatory_keys_def initial_props_def)

text \<open>
  Claim C4. When one of the mandatory keys \<open>tol\<close>, \<open>maxiter\<close>, \<open>logdomain\<close>, \<open>updates\<close> is
  absent from the bag, the construction of the engine fails with \<open>NotSpecified\<close>,
  whatever the conversions and the construction of the edge tables would do. When all
  of them are present, adding keys that are not recognized changes nothing: the
  construction gives the same engine, or the same error, as without them.
\<close>

theorem BP_new_properties:
  "(\<forall>k \<in> set mandatory_keys.
      opts k = None \<longrightarrow> BP_new cv build_edges g opts = Inl NotSpecified)
   \<and> ((\<forall>k \<in> set mandatory_keys. opts k \<noteq> None)
        \<and> (\<forall>k \<in> dom extra. k \<notin> set recognized_keys)
      \<longrightarrow> BP_new cv build_edges g (opts ++ extra) = BP_new cv build_edges g opts)"
  by (simp add: BP_new_def setProperties_missing setProperties_unknown_keys)

theorem BP_new_properties_witness:
  "''tol'' \<in> set mandatory_keys \<and> options_without_tol ''tol'' = None
   \<and> BP_new nat_conversions (\<lambda>g p. Inr []) (fg pair_bp) options_without_tol = Inl NotSpecified
   \<and> list_all (\<lambda>k. full_options k \<noteq> None) mandatory_keys
   \<and> dom unknown_options = {''colour''} \<and> ''colour'' \<notin> set recognized_keys
   \<and> BP_new nat_conversions (\<lambda>g p. Inr []) (fg pair_bp) (full_options ++ unknown_options)
       = Inr \<lparr>fg = fg pair_bp, edges = [], maxdiff = 0, iters = 0,
              props = \<lparr>verbose = 0, maxiter = 10, tol = 1, logdomain = False, damping = 0,
                       updates = PARALL\<rparr>\<rparr>"
proof -
  have m: "''tol'' \<in> set mandatory_keys" "options_without_tol ''tol'' = None"
    by (simp_all add: mandatory_keys_def options_without_tol_def)
  have f: "\<forall>k \<in> set mandatory_keys. full_options k \<noteq> None"
    by (simp add: mandatory_keys_def full_options_def)
  have u: "\<forall>k \<in> dom unknown_options. k \<notin> set recognized_keys"
    by (simp add: unknown_options_def recognized_keys_def mandatory_keys_def)
  have "BP_new nat_conversions (\<lambda>g p. Inr []) (fg pair_bp) options_without_tol
      = Inl NotSpecified"
    using BP_new_properties
      [of options_without_tol nat_conversions "\<lambda>g p. Inr []" "fg pair_bp"] m
    by blast
  moreover
  have "BP_new nat_conversions (\<lambda>g p. Inr []) (fg pair_bp) (full_options ++ unknown_options)
      = BP_new nat_conversions (\<lambda>g p. Inr []) (fg pair_bp) full_options"
    using BP_new_properties
      [of full_options nat_conversions "\<lambda>g p. Inr []" "fg pair_bp" unknown_options] f u
    by blast
  moreover have "list_all (\<lambda>k. full_options k \<noteq> None) mandatory_keys"
    using f by (simp add: list_all_iff)
  moreover have "dom unknown_options = {''colour''}" "''colour'' \<notin> set recognized_keys"
    by (simp_all add: unknown_options_def recognized_keys_def mandatory_keys_def)
  ultimately show ?thesis
    using m by (simp add: BP_new_def setProperties_full_options)
qed


section \<open>Termination of run\<close>

lemma length_pass_dists: "length (pass_dists pass p n es) \<le> n"
  by (induction n arbitrary: es) (auto split: sum.splits)

lemma fold_max_Max: "fold max xs (a::real) = Max (insert a (set xs))"
  using Max.set_eq_fold [of a xs] by simp

text \<open>
  The loop, started with \<open>n\<close> iterations to go: \<open>k\<close> is the number of passes it
  completes, \<open>ds\<close> the distances of the passes.
\<close>

lemma run_loop_spec:
  assumes "run_loop pass n d bp = (r, bp')"
  defines "ds \<equiv> pass_dists pass (props bp) n (edges bp)"
  defines "k \<equiv> iters bp' - iters bp"
  shows "iters bp \<le> iters bp' \<and> k \<le> length ds
       \<and> (\<forall>j. Suc j < k \<longrightarrow> tol (props bp) < ds ! j)
       \<and> (case r of
             Inr x \<Rightarrow> x = (if k = 0 then d else ds ! (k - 1))
                       \<and> (k = n \<or> (0 < k \<and> ds ! (k - 1) \<le> tol (props bp)))
           | Inl e \<Rightarrow> k = length ds \<and> k < n \<and> (\<forall>j < k. tol (props bp) < ds ! j)
                       \<and> pass (props bp) (edges bp') = Inl e)
       \<and> maxdiff bp' = fold max (take k ds) (maxdiff bp)
       \<and> edges bp' = after_passes pass (props bp) k (edges bp)"
  using assms(1) unfolding ds_def k_def
proof (induction n arbitrary: d bp)
  case 0
  then show ?case by auto
next
  case (Suc n)
  show ?case
  proof (cases "pass (props bp) (edges bp)")
    case (Inl e)
    then show ?thesis using Suc.prems by auto
  next
    case (Inr y)
    obtain es d' where y: "y = (es, d')" by (cases y)
    define bp1 where
      "bp1 = bp\<lparr>edges := es, iters := Suc (iters bp), maxdiff := max (maxdiff bp) d'\<rparr>"
    show ?thesis
    proof (cases "d' \<le> tol (props bp)")
      case True
      then have "r = Inr d'" "bp' = bp1"
        using Suc.prems Inr y by (auto simp: bp1_def Let_def)
      then show ?thesis using Inr y True by (auto simp: bp1_def max.commute)
    next
      case False
      then have rl: "run_loop pass n d' bp1 = (r, bp')"
        using Suc.prems Inr y by (auto simp: bp1_def Let_def)
      note ih = Suc.IH [OF rl]
      have p1: "props bp1 = props bp" "edges bp1 = es" "iters bp1 = Suc (iters bp)"
        "maxdiff bp1 = max (maxdiff bp) d'"
        by (simp_all add: bp1_def)
      from ih have le: "Suc (iters bp) \<le> iters bp'" by (simp add: p1)
      then obtain k1 where
        k1: "iters bp' - iters bp = Suc k1" "iters bp' - Suc (iters bp) = k1"
        by (metis Suc_diff_le diff_Suc_Suc)
      have dsS: "pass_dists pass (props bp) (Suc n) (edges bp)
          = d' # pass_dists pass (props bp) n es"
        using Inr y by simp
      show ?thesis
        using ih False le unfolding p1 k1 dsS
        apply (intro conjI)
             apply simp
            apply simp
           apply (auto simp: nth_Cons' less_Suc_eq_0_disj)[1]
          apply (cases r; auto simp: nth_Cons' less_Suc_eq_0_disj split: if_splits)
         apply (simp add: max.commute)
        apply (simp add: Inr y)
        done
    qed
  qed
qed

lemma halving_run:
  "fst (run halving_pass 1 halving_bp) = Inr (1/4)"
  "Iterations (snd (run halving_pass 1 halving_bp)) = 2"
  "maxDiff (snd (run halving_pass 1 halving_bp)) = 1/2"
  by (simp_all add: run_def halving_bp_def halving_pass_def eval_nat_numeral Iterations_def
      maxDiff_def)

text \<open>
  Claim C3. \<open>run\<close> is a total function: it returns for every engine and every pass. Let
  \<open>ds\<close> be the distances of the passes and \<open>k\<close> the value of \<open>Iterations()\<close> afterwards.
  Then \<open>k\<close> is at most \<open>maxiter\<close>; every completed pass but the last had a distance above
  \<open>tol\<close>, so \<open>run\<close> stopped at the first pass with a distance of at most \<open>tol\<close>; when
  \<open>run\<close> returns a distance, it stopped because of that or because \<open>k = maxiter\<close>, and the
  distance returned is that of the last completed pass; when a pass fails, \<open>run\<close> fails
  with its error, before \<open>maxiter\<close> passes are completed; \<open>maxDiff()\<close> is the largest of
  the distances of the completed passes and the value it had before; and the edge
  tables are those after \<open>k\<close> passes.
\<close>

theorem run_terminates_within_maxiter:
  assumes "run pass d0 bp = (r, bp')"
  defines "ds \<equiv> pass_dists pass (props bp) (maxiter (props bp)) (edges bp)"
  defines "k \<equiv> Iterations bp'"
  shows "k \<le> maxiter (props bp) \<and> k \<le> length ds
       \<and> (\<forall>j. Suc j < k \<longrightarrow> tol (props bp) < ds ! j)
       \<and> (\<forall>x. r = Inr x \<longrightarrow>
             (k = maxiter (props bp) \<or> (0 < k \<and> ds ! (k - 1) \<le> tol (props bp)))
             \<and> x = (if k = 0 then d0 else ds ! (k - 1)))
       \<and> (\<forall>e. r = Inl e \<longrightarrow>
             k < maxiter (props bp) \<and> (\<forall>j < k. tol (props bp) < ds ! j)
             \<and> pass (props bp) (edges bp') = Inl e)
       \<and> maxDiff bp' = Max (insert (maxdiff bp) (set (take k ds)))
       \<and> edges bp' = after_passes pass (props bp) k (edges bp)"
proof -
  have rl: "run_loop pass (maxiter (props bp)) d0 (bp\<lparr>iters := 0\<rparr>) = (r, bp')"
    using assms(1) by (simp add: run_def)
  have s: "iters (bp\<lparr>iters := 0\<rparr>) = 0" "props (bp\<lparr>iters := 0\<rparr>) = props bp"
    "edges (bp\<lparr>iters := 0\<rparr>) = edges bp" "maxdiff (bp\<lparr>iters := 0\<rparr>) = maxdiff bp"
    by simp_all
  note sp = run_loop_spec
    [OF rl, unfolded s, folded ds_def, simplified, folded Iterations_def k_def]
  have "k \<le> maxiter (props bp)"
    using sp length_pass_dists [of pass "props bp" "maxiter (props bp)" "edges bp"]
    unfolding ds_def by linarith
  then show ?thesis
    using sp by (cases r) (auto simp: maxDiff_def fold_max_Max)
qed

theorem run_terminates_within_maxiter_witness:
  "run halving_pass 1 halving_bp = (Inr (1/4), snd (run halving_pass 1 halving_bp))
   \<and> Iterations (snd (run halving_pass 1 halving_bp)) = 2
   \<and> Iterations (snd (run halving_pass 1 halving_bp)) \<le> maxiter (props halving_bp)
   \<and> maxDiff (snd (run halving_pass 1 halving_bp)) = 1/2"
proof -
  have h: "run halving_pass 1 halving_bp = (Inr (1/4), snd (run halving_pass 1 halving_bp))"
    using halving_run(1) by (simp add: prod_eq_iff)
  have "Iterations (snd (run halving_pass 1 halving_bp)) \<le> maxiter (props halving_bp)"
    using run_terminates_within_maxiter [OF h] by (rule conjunct1)
  then show ?thesis
    using h halving_run(2,3) by simp
qed


section \<open>Beliefs over sets of variables are normalized or fail\<close>

























end
